theory Spec2Isabelle
  imports Main "HOL-Library.Word"
begin

section \<open>Data model of the cache dictionary\<close>

text \<open>
  The embedded code is \<^verbatim>\<open>dbms/src/Dictionaries/CacheDictionary.inc.h\<close>: the batch lookups
  \<^verbatim>\<open>getItemsNumberImpl\<close> and \<^verbatim>\<open>getItemsString\<close> and the answer-preparation step
  \<^verbatim>\<open>prepareAnswer\<close>. Keys and the counters are \<^verbatim>\<open>UInt64\<close>; time points are counted in
  seconds as unbounded integers (the clock's finer tick is abstracted away, and the signed
  overflow of \<^verbatim>\<open>now + seconds\<close> is undefined behaviour in the source).
\<close>

type_synonym key = "64 word"
type_synonym time_point = int

datatype error = QueueFullError | OutOfRange

datatype lock_mode = Unlocked | ReadLocked | WriteLocked

text \<open>
  One cell of the table. The field \<^verbatim>\<open>id\<close> of the source is \<open>cell_id\<close> here, since \<open>id\<close>
  is the identity function of HOL.
\<close>

record cell =
  cell_id :: key
  expires_at :: time_point
  is_default :: bool

text \<open>An attribute: its null value and its array of payloads, one per cell.\<close>

record 'v attribute =
  null_value :: 'v
  arrays :: "'v list"

record update_unit =
  requested_ids :: "key list"
  found_ids_mask :: "key \<rightharpoonup> bool"

text \<open>
  The members of \<^verbatim>\<open>CacheDictionary\<close> that the three functions read or write.
  \<open>cell_writes\<close> is a history of the cell mutations: the index of the cell and the mode in
  which \<open>rw_lock\<close> was held when the cell was written. \<open>backoff_end_time\<close> is the member
  named by the disabled block of \<^verbatim>\<open>prepareAnswer\<close>; no enabled line reads it.
\<close>

record 'v cache =
  cells :: "cell list"
  attributes :: "'v attribute list"
  element_count :: "64 word"
  query_count :: "64 word"
  hit_count :: "64 word"
  update_queue :: "update_unit list"
  rnd_engine :: nat
  rw_lock :: lock_mode
  cell_writes :: "(nat \<times> lock_mode) list"
  backoff_end_time :: time_point

text \<open>
  The configuration, fixed at construction: the hash of a key, the special index of the
  zero slot, the lifetime bounds, the stale-read switch, the capacity of the update queue,
  the transition function of the random engine (its state to the raw output and the next
  state), and the order in which the hash maps of the standard library iterate over their
  keys (from the keys in the order of insertion to the keys in the order of iteration).
\<close>

record config =
  hash :: "key \<Rightarrow> nat"
  zero_cell_idx :: nat
  min_sec :: nat
  max_sec :: nat
  allow_read_expired_keys :: bool
  max_update_queue_size :: nat
  rnd_gen :: "nat \<Rightarrow> nat \<times> nat"
  map_order :: "key list \<Rightarrow> key list"

definition time_point_max :: time_point where
  "time_point_max = 2 ^ 63 - 1"

record find_result =
  cell_idx :: nat
  valid :: bool
  outdated :: bool

text \<open>
  Modelled from the spec: \<^verbatim>\<open>getCellIdx\<close> is declared outside the file; the slot of a key
  is its hash modulo the number of cells.
\<close>

definition getCellIdx :: "config \<Rightarrow> 'v cache \<Rightarrow> key \<Rightarrow> nat" where
  "getCellIdx cfg st k = hash cfg k mod length (cells st)"

text \<open>
  Modelled from the spec: \<^verbatim>\<open>findCellIdx\<close> is declared outside the file. The cell of the
  key's slot holds the key and is fresh (valid), holds the key and has expired (outdated),
  or holds another key (neither); the slot index is returned in all three cases.
\<close>

definition findCellIdx :: "config \<Rightarrow> 'v cache \<Rightarrow> key \<Rightarrow> time_point \<Rightarrow> find_result" where
  "findCellIdx cfg st k now =
     (let slot = getCellIdx cfg st k; c = cells st ! slot in
      if cell_id c = k then
        (if now < expires_at c
         then \<lparr>cell_idx = slot, valid = True, outdated = False\<rparr>
         else \<lparr>cell_idx = slot, valid = False, outdated = True\<rparr>)
      else \<lparr>cell_idx = slot, valid = False, outdated = False\<rparr>)"

text \<open>
  Modelled from the spec: the accessors of a cell are declared outside the file.
  \<^verbatim>\<open>setExpiresAt\<close> stores the expiry, \<^verbatim>\<open>setDefault\<close> raises the default flag.
\<close>

definition setExpiresAt :: "time_point \<Rightarrow> cell \<Rightarrow> cell" where
  "setExpiresAt t c = c\<lparr>expires_at := t\<rparr>"

definition setDefault :: "cell \<Rightarrow> cell" where
  "setDefault c = c\<lparr>is_default := True\<rparr>"

definition isDefault :: "cell \<Rightarrow> bool" where
  "isDefault c = is_default c"

text \<open>
  A write to \<^verbatim>\<open>cells[idx]\<close> through the reference \<^verbatim>\<open>cell\<close>: the cell is replaced and the
  history notes the mode of the lock at that moment.
\<close>

definition write_cell :: "nat \<Rightarrow> (cell \<Rightarrow> cell) \<Rightarrow> 'v cache \<Rightarrow> 'v cache" where
  "write_cell idx f st =
     st\<lparr>cells := (cells st)[idx := f (cells st ! idx)],
        cell_writes := cell_writes st @ [(idx, rw_lock st)]\<rparr>"

text \<open>
  Modelled from the spec: \<^verbatim>\<open>setDefaultAttributeValue\<close> is declared outside the file; it
  writes the attribute's null value into the payload of the slot.
\<close>

definition setDefaultAttributeValue :: "nat \<Rightarrow> 'v attribute \<Rightarrow> 'v attribute" where
  "setDefaultAttributeValue idx a = a\<lparr>arrays := (arrays a)[idx := null_value a]\<rparr>"

text \<open>
  \<^verbatim>\<open>std::uniform_int_distribution<UInt64>{a, b}\<close> applied to one raw output of the engine:
  a value between \<open>a\<close> and \<open>b\<close> when \<open>a \<le> b\<close>.
\<close>

definition uniform_int_distribution :: "nat \<Rightarrow> nat \<Rightarrow> nat \<Rightarrow> nat" where
  "uniform_int_distribution a b raw = a + raw mod (b - a + 1)"

section \<open>The answer-preparation step\<close>

text \<open>
  The body of the loop of \<^verbatim>\<open>prepareAnswer\<close> for one requested id. The two handlers act on
  the caller's own data \<open>'c\<close> (the output rows, or the string map); the handler for an
  updated cell reads the attribute array, so it receives the cache.
  \<^verbatim>\<open>found_ids_mask_ptr->at(id)\<close> throws when the id has no entry.
\<close>

definition prepareAnswer_body ::
  "config \<Rightarrow> update_unit \<Rightarrow> (key \<Rightarrow> nat \<Rightarrow> 'v cache \<Rightarrow> 'c \<Rightarrow> 'c) \<Rightarrow> (key \<Rightarrow> nat \<Rightarrow> 'c \<Rightarrow> 'c) \<Rightarrow>
   time_point \<Rightarrow> key \<Rightarrow> 'v cache \<times> 'c \<Rightarrow> error + 'v cache \<times> 'c" where
  "prepareAnswer_body cfg u on_cell_updated on_id_not_found now k sc =
     (case sc of (st, c) \<Rightarrow>
      let fr = findCellIdx cfg st k now;
          idx = cell_idx fr
      in (case found_ids_mask u k of
            None \<Rightarrow> Inl OutOfRange
          | Some was_id_updated \<Rightarrow>
              if was_id_updated then Inr (st, on_cell_updated k idx st c)
              else
                (let st1 = (if cell_id (cells st ! idx) = 0 \<and> idx \<noteq> zero_cell_idx cfg
                            then st\<lparr>element_count := element_count st + 1\<rparr> else st);
                     st2 = write_cell idx (\<lambda>c. c\<lparr>cell_id := k\<rparr>) st1;
                     st3 = (if min_sec cfg \<noteq> 0 \<and> max_sec cfg \<noteq> 0
                            then
                              (case rnd_gen cfg (rnd_engine st2) of (raw, eng) \<Rightarrow>
                                 write_cell idx
                                   (setExpiresAt
                                      (now + int (uniform_int_distribution (min_sec cfg) (max_sec cfg) raw)))
                                   (st2\<lparr>rnd_engine := eng\<rparr>))
                            else write_cell idx (setExpiresAt time_point_max) st2);
                     st4 = write_cell idx setDefault st3;
                     st5 = st4\<lparr>attributes := map (setDefaultAttributeValue idx) (attributes st4)\<rparr>
                 in Inr (st5, on_id_not_found k idx c))))"

fun prepareAnswer_loop ::
  "config \<Rightarrow> update_unit \<Rightarrow> (key \<Rightarrow> nat \<Rightarrow> 'v cache \<Rightarrow> 'c \<Rightarrow> 'c) \<Rightarrow> (key \<Rightarrow> nat \<Rightarrow> 'c \<Rightarrow> 'c) \<Rightarrow>
   time_point \<Rightarrow> key list \<Rightarrow> 'v cache \<times> 'c \<Rightarrow> error + 'v cache \<times> 'c" where
  "prepareAnswer_loop cfg u on_cell_updated on_id_not_found now [] sc = Inr sc"
| "prepareAnswer_loop cfg u on_cell_updated on_id_not_found now (k # ks) sc =
     (case prepareAnswer_body cfg u on_cell_updated on_id_not_found now k sc of
        Inl e \<Rightarrow> Inl e
      | Inr sc' \<Rightarrow> prepareAnswer_loop cfg u on_cell_updated on_id_not_found now ks sc')"

text \<open>
  \<^verbatim>\<open>prepareAnswer\<close>: the scoped lock is a \<^verbatim>\<open>ProfilingScopedReadRWLock\<close>, held over the
  whole loop and released at the end of the scope.
\<close>

definition prepareAnswer ::
  "config \<Rightarrow> update_unit \<Rightarrow> (key \<Rightarrow> nat \<Rightarrow> 'v cache \<Rightarrow> 'c \<Rightarrow> 'c) \<Rightarrow> (key \<Rightarrow> nat \<Rightarrow> 'c \<Rightarrow> 'c) \<Rightarrow>
   time_point \<Rightarrow> 'v cache \<Rightarrow> 'c \<Rightarrow> error + 'v cache \<times> 'c" where
  "prepareAnswer cfg u on_cell_updated on_id_not_found now st c =
     (case prepareAnswer_loop cfg u on_cell_updated on_id_not_found now (requested_ids u)
             (st\<lparr>rw_lock := ReadLocked\<rparr>, c) of
        Inl e \<Rightarrow> Inl e
      | Inr (st', c') \<Rightarrow> Inr (st'\<lparr>rw_lock := Unlocked\<rparr>, c'))"

section \<open>The update queue\<close>

text \<open>
  Modelled from the spec: the constructor of \<^verbatim>\<open>UpdateUnit\<close> is declared outside the file.
  A new unit holds the requested ids, each with a found mask entry that is still false.
\<close>

definition UpdateUnit :: "key list \<Rightarrow> update_unit" where
  "UpdateUnit ids = \<lparr>requested_ids = ids, found_ids_mask = map_of (map (\<lambda>k. (k, False)) ids)\<rparr>"

text \<open>
  Modelled from the spec: \<^verbatim>\<open>tryPushToUpdateQueueOrThrow\<close> is declared outside the file. It
  fails with \<open>QueueFullError\<close> when the bounded queue is at capacity, and appends the unit
  otherwise.
\<close>

definition tryPushToUpdateQueueOrThrow :: "config \<Rightarrow> update_unit \<Rightarrow> 'v cache \<Rightarrow> error + 'v cache" where
  "tryPushToUpdateQueueOrThrow cfg u st =
     (if max_update_queue_size cfg \<le> length (update_queue st) then Inl QueueFullError
      else Inr (st\<lparr>update_queue := update_queue st @ [u]\<rparr>))"

text \<open>
  Modelled from the spec: \<^verbatim>\<open>waitForCurrentUpdateFinish\<close> is declared outside the file. The
  caller blocks until the completion of the unit is signalled. What the background worker
  and the other threads did meanwhile is the parameter \<open>worker\<close>: from the unit and the
  cache at the push, the found mask of the completed unit and the cache at the wake-up.
\<close>

definition waitForCurrentUpdateFinish ::
  "(update_unit \<Rightarrow> 'v cache \<Rightarrow> (key \<rightharpoonup> bool) \<times> 'v cache) \<Rightarrow> update_unit \<Rightarrow> 'v cache \<Rightarrow>
   update_unit \<times> 'v cache" where
  "waitForCurrentUpdateFinish worker u st =
     (case worker u st of (found, st') \<Rightarrow> (u\<lparr>found_ids_mask := found\<rparr>, st'))"

section \<open>The grouping maps\<close>

text \<open>
  \<^verbatim>\<open>std::unordered_map<Key, std::vector<size_t>>\<close>: an association list with one entry per
  key, in the order of their first insertion.
\<close>

type_synonym group_map = "(key \<times> nat list) list"

text \<open>\<^verbatim>\<open>m[id].push_back(row)\<close>\<close>

fun push_back_row :: "key \<Rightarrow> nat \<Rightarrow> group_map \<Rightarrow> group_map" where
  "push_back_row k r [] = [(k, [r])]"
| "push_back_row k r ((k', rs) # m) =
     (if k' = k then (k', rs @ [r]) # m else (k', rs) # push_back_row k r m)"

text \<open>Reading \<^verbatim>\<open>m[id]\<close>: the rows of the key, none when the key has no entry.\<close>

definition group_rows :: "group_map \<Rightarrow> key \<Rightarrow> nat list" where
  "group_rows m k = (case map_of m k of None \<Rightarrow> [] | Some rs \<Rightarrow> rs)"

text \<open>
  The keys that \<^verbatim>\<open>std::transform\<close> over the map collects: the keys of the map in the
  iteration order of the map.
\<close>

definition group_keys :: "config \<Rightarrow> group_map \<Rightarrow> key list" where
  "group_keys cfg m = map_order cfg (map fst m)"

text \<open>
  The variables of a lookup that its lambdas capture by reference: the two grouping maps,
  the hit counter and the output parameter \<^verbatim>\<open>out\<close>.
\<close>

record 'out lookup_locals =
  cache_expired_ids :: group_map
  cache_not_found_ids :: group_map
  cache_hit :: nat
  out :: 'out

section \<open>The numeric lookup\<close>

type_synonym 'o number_locals = "'o list lookup_locals"

text \<open>The lambda \<^verbatim>\<open>update_routine\<close> of the classify pass.\<close>

definition update_routine ::
  "'v cache \<Rightarrow> nat \<Rightarrow> ('v \<Rightarrow> 'o) \<Rightarrow> (nat \<Rightarrow> 'o) \<Rightarrow> find_result \<Rightarrow> nat \<Rightarrow> 'o list \<Rightarrow> 'o list" where
  "update_routine st a static_cast get_default fr row ou =
     (let idx = cell_idx fr; c = cells st ! idx in
      ou[row := (if isDefault c then get_default row
                 else static_cast (arrays (attributes st ! a) ! idx))])"

definition number_classify_body ::
  "config \<Rightarrow> 'v cache \<Rightarrow> nat \<Rightarrow> ('v \<Rightarrow> 'o) \<Rightarrow> (nat \<Rightarrow> 'o) \<Rightarrow> time_point \<Rightarrow> nat \<Rightarrow> key \<Rightarrow>
   'o number_locals \<Rightarrow> 'o number_locals" where
  "number_classify_body cfg st a static_cast get_default now row k acc =
     (let fr = findCellIdx cfg st k now in
      if \<not> valid fr then
        (if outdated fr then
           (let acc1 = acc\<lparr>cache_expired_ids := push_back_row k row (cache_expired_ids acc)\<rparr> in
            if allow_read_expired_keys cfg
            then acc1\<lparr>out := update_routine st a static_cast get_default fr row (out acc1)\<rparr>
            else acc1)
         else acc\<lparr>cache_not_found_ids := push_back_row k row (cache_not_found_ids acc)\<rparr>)
      else acc\<lparr>cache_hit := Suc (cache_hit acc),
               out := update_routine st a static_cast get_default fr row (out acc)\<rparr>)"

text \<open>The loop over the rows \<open>row, row + 1, \<dots>\<close> of the remaining ids.\<close>

fun number_classify_loop ::
  "config \<Rightarrow> 'v cache \<Rightarrow> nat \<Rightarrow> ('v \<Rightarrow> 'o) \<Rightarrow> (nat \<Rightarrow> 'o) \<Rightarrow> time_point \<Rightarrow> nat \<Rightarrow> key list \<Rightarrow>
   'o number_locals \<Rightarrow> 'o number_locals" where
  "number_classify_loop cfg st a static_cast get_default now row [] acc = acc"
| "number_classify_loop cfg st a static_cast get_default now row (k # ks) acc =
     number_classify_loop cfg st a static_cast get_default now (Suc row) ks
       (number_classify_body cfg st a static_cast get_default now row k acc)"

text \<open>\<^verbatim>\<open>for (const size_t row : rows) out[row] = f(row)\<close>\<close>

definition write_rows :: "nat list \<Rightarrow> (nat \<Rightarrow> 'o) \<Rightarrow> 'o list \<Rightarrow> 'o list" where
  "write_rows rows f ou = foldl (\<lambda>ou' row. ou'[row := f row]) ou rows"

text \<open>The two handlers that the numeric lookup passes to \<^verbatim>\<open>prepareAnswer\<close>.\<close>

definition number_on_cell_updated ::
  "nat \<Rightarrow> ('v \<Rightarrow> 'o) \<Rightarrow> key \<Rightarrow> nat \<Rightarrow> 'v cache \<Rightarrow> 'o number_locals \<Rightarrow> 'o number_locals" where
  "number_on_cell_updated a static_cast k idx st acc =
     (let attribute_value = arrays (attributes st ! a) ! idx in
      acc\<lparr>out := write_rows (group_rows (cache_expired_ids acc) k) (\<lambda>row. static_cast attribute_value)
                   (write_rows (group_rows (cache_not_found_ids acc) k)
                      (\<lambda>row. static_cast attribute_value) (out acc))\<rparr>)"

definition number_on_id_not_found ::
  "(nat \<Rightarrow> 'o) \<Rightarrow> key \<Rightarrow> nat \<Rightarrow> 'o number_locals \<Rightarrow> 'o number_locals" where
  "number_on_id_not_found get_default k idx acc =
     acc\<lparr>out := write_rows (group_rows (cache_expired_ids acc) k) get_default
                  (write_rows (group_rows (cache_not_found_ids acc) k) get_default (out acc))\<rparr>"

text \<open>
  \<^verbatim>\<open>getItemsNumberImpl\<close>. \<open>out0\<close> is the caller's output array, \<open>now\<close> the clock of the
  classify pass and \<open>now'\<close> the clock of \<^verbatim>\<open>prepareAnswer\<close>. An exception is the result
  \<open>Inl\<close>. The profile events are left out, and so is the read lock of the classify pass,
  which writes no cell.
\<close>

definition getItemsNumberImpl ::
  "config \<Rightarrow> nat \<Rightarrow> ('v \<Rightarrow> 'o) \<Rightarrow> key list \<Rightarrow> 'o list \<Rightarrow> (nat \<Rightarrow> 'o) \<Rightarrow> time_point \<Rightarrow>
   (update_unit \<Rightarrow> 'v cache \<Rightarrow> (key \<rightharpoonup> bool) \<times> 'v cache) \<Rightarrow> time_point \<Rightarrow> 'v cache \<Rightarrow>
   error + 'v cache \<times> 'o list" where
  "getItemsNumberImpl cfg a static_cast ids out0 get_default now worker now' st =
     (let rows = length ids;
          acc = number_classify_loop cfg st a static_cast get_default now 0 ids
                  \<lparr>cache_expired_ids = [], cache_not_found_ids = [], cache_hit = 0, out = out0\<rparr>;
          st1 = st\<lparr>query_count := query_count st + of_nat rows,
                   hit_count := hit_count st + (of_nat rows - of_nat (length (cache_expired_ids acc))
                                                - of_nat (length (cache_not_found_ids acc)))\<rparr>
      in if cache_not_found_ids acc = [] \<and> cache_expired_ids acc = [] then Inr (st1, out acc)
         else if cache_not_found_ids acc = [] \<and> allow_read_expired_keys cfg then
           (let required_expired_ids = group_keys cfg (cache_expired_ids acc) in
            case tryPushToUpdateQueueOrThrow cfg (UpdateUnit required_expired_ids) st1 of
              Inl e \<Rightarrow> Inl e
            | Inr st2 \<Rightarrow> Inr (st2, out acc))
         else
           (let required_ids = group_keys cfg (cache_not_found_ids acc)
                                  @ group_keys cfg (cache_expired_ids acc);
                u = UpdateUnit required_ids
            in case tryPushToUpdateQueueOrThrow cfg u st1 of
                 Inl e \<Rightarrow> Inl e
               | Inr st2 \<Rightarrow>
                   (case waitForCurrentUpdateFinish worker u st2 of
                      (u', st3) \<Rightarrow>
                        (case prepareAnswer cfg u' (number_on_cell_updated a static_cast)
                                (number_on_id_not_found get_default) now' st3 acc of
                           Inl e \<Rightarrow> Inl e
                         | Inr (st4, acc') \<Rightarrow> Inr (st4, out acc')))))"

section \<open>The string lookup\<close>

text \<open>
  \<^verbatim>\<open>ColumnString\<close>: the character buffer and the offsets. \<^verbatim>\<open>insertData\<close> appends the bytes
  and a terminating zero, and the offset behind them.
\<close>

record column_string =
  chars :: "char list"
  offsets :: "nat list"

definition insertData :: "string \<Rightarrow> column_string \<Rightarrow> column_string" where
  "insertData s col =
     \<lparr>chars = chars col @ s @ [CHR 0x00],
      offsets = offsets col @ [length (chars col) + length s + 1]\<rparr>"

text \<open>The string map is \<^verbatim>\<open>map\<close> in the source, \<open>map_s\<close> here.\<close>

record string_locals = "column_string lookup_locals" +
  map_s :: "key \<rightharpoonup> string"
  total_length :: nat

text \<open>
  The optimistic pass: the flag \<^verbatim>\<open>found_outdated_values\<close> and the column. The loop is left
  at the first id that is not a valid hit.
\<close>

fun string_optimistic_loop ::
  "config \<Rightarrow> string cache \<Rightarrow> nat \<Rightarrow> (nat \<Rightarrow> string) \<Rightarrow> time_point \<Rightarrow> nat \<Rightarrow> key list \<Rightarrow>
   column_string \<Rightarrow> bool \<times> column_string" where
  "string_optimistic_loop cfg st a get_default now row [] col = (False, col)"
| "string_optimistic_loop cfg st a get_default now row (k # ks) col =
     (let fr = findCellIdx cfg st k now in
      if \<not> valid fr then (True, col)
      else
        (let idx = cell_idx fr; c = cells st ! idx;
             string_ref = (if isDefault c then get_default row else arrays (attributes st ! a) ! idx)
         in string_optimistic_loop cfg st a get_default now (Suc row) ks (insertData string_ref col)))"

text \<open>The lambda \<^verbatim>\<open>insert_value_routine\<close> of the second classify pass.\<close>

definition insert_value_routine ::
  "string cache \<Rightarrow> nat \<Rightarrow> (nat \<Rightarrow> string) \<Rightarrow> find_result \<Rightarrow> nat \<Rightarrow> key \<Rightarrow>
   string_locals \<Rightarrow> string_locals" where
  "insert_value_routine st a get_default fr row k acc =
     (let idx = cell_idx fr; c = cells st ! idx;
          string_ref = (if isDefault c then get_default row else arrays (attributes st ! a) ! idx);
          acc1 = (if \<not> isDefault c then acc\<lparr>map_s := (map_s acc)(k \<mapsto> string_ref)\<rparr> else acc)
      in acc1\<lparr>total_length := total_length acc1 + (length string_ref + 1)\<rparr>)"

definition string_classify_body ::
  "config \<Rightarrow> string cache \<Rightarrow> nat \<Rightarrow> (nat \<Rightarrow> string) \<Rightarrow> time_point \<Rightarrow> nat \<Rightarrow> key \<Rightarrow>
   string_locals \<Rightarrow> string_locals" where
  "string_classify_body cfg st a get_default now row k acc =
     (let fr = findCellIdx cfg st k now in
      if \<not> valid fr then
        (if outdated fr then
           (let acc1 = acc\<lparr>cache_expired_ids := push_back_row k row (cache_expired_ids acc)\<rparr> in
            if allow_read_expired_keys cfg
            then insert_value_routine st a get_default fr row k acc1
            else acc1)
         else acc\<lparr>cache_not_found_ids := push_back_row k row (cache_not_found_ids acc)\<rparr>)
      else insert_value_routine st a get_default fr row k (acc\<lparr>cache_hit := Suc (cache_hit acc)\<rparr>))"

fun string_classify_loop ::
  "config \<Rightarrow> string cache \<Rightarrow> nat \<Rightarrow> (nat \<Rightarrow> string) \<Rightarrow> time_point \<Rightarrow> nat \<Rightarrow> key list \<Rightarrow>
   string_locals \<Rightarrow> string_locals" where
  "string_classify_loop cfg st a get_default now row [] acc = acc"
| "string_classify_loop cfg st a get_default now row (k # ks) acc =
     string_classify_loop cfg st a get_default now (Suc row) ks
       (string_classify_body cfg st a get_default now row k acc)"

text \<open>The two handlers that the string lookup passes to \<^verbatim>\<open>prepareAnswer\<close>.\<close>

definition string_on_cell_updated ::
  "nat \<Rightarrow> key \<Rightarrow> nat \<Rightarrow> string cache \<Rightarrow> string_locals \<Rightarrow> string_locals" where
  "string_on_cell_updated a k idx st acc =
     (let attribute_value = arrays (attributes st ! a) ! idx in
      acc\<lparr>map_s := (map_s acc)(k \<mapsto> attribute_value),
          total_length := total_length acc
             + (length attribute_value + 1) * length (group_rows (cache_not_found_ids acc) k)\<rparr>)"

definition string_on_id_not_found ::
  "(nat \<Rightarrow> string) \<Rightarrow> key \<Rightarrow> nat \<Rightarrow> string_locals \<Rightarrow> string_locals" where
  "string_on_id_not_found get_default k idx acc =
     acc\<lparr>total_length := foldl (\<lambda>t row. t + (length (get_default row) + 1)) (total_length acc)
                            (group_rows (cache_not_found_ids acc) k)\<rparr>"

text \<open>The final loop: one \<^verbatim>\<open>insertData\<close> per row, from the string map or the row's default.\<close>

fun string_emit_loop ::
  "(key \<rightharpoonup> string) \<Rightarrow> (nat \<Rightarrow> string) \<Rightarrow> nat \<Rightarrow> key list \<Rightarrow> column_string \<Rightarrow> column_string" where
  "string_emit_loop m get_default row [] col = col"
| "string_emit_loop m get_default row (k # ks) col =
     string_emit_loop m get_default (Suc row) ks
       (insertData (case m k of Some s \<Rightarrow> s | None \<Rightarrow> get_default row) col)"

text \<open>
  The pessimistic part of \<^verbatim>\<open>getItemsString\<close>, from the declaration of the grouping maps to
  the end of the function. \<^verbatim>\<open>total_length\<close> only sizes a \<^verbatim>\<open>reserve\<close>.
\<close>

definition getItemsString_pessimistic ::
  "config \<Rightarrow> nat \<Rightarrow> key list \<Rightarrow> column_string \<Rightarrow> (nat \<Rightarrow> string) \<Rightarrow> time_point \<Rightarrow>
   (update_unit \<Rightarrow> string cache \<Rightarrow> (key \<rightharpoonup> bool) \<times> string cache) \<Rightarrow> time_point \<Rightarrow> string cache \<Rightarrow>
   error + string cache \<times> column_string" where
  "getItemsString_pessimistic cfg a ids col get_default now worker now' st =
     (let rows = length ids;
          acc = string_classify_loop cfg st a get_default now 0 ids
                  \<lparr>cache_expired_ids = [], cache_not_found_ids = [], cache_hit = 0,
                   out = col, map_s = Map.empty, total_length = 0\<rparr>;
          st1 = st\<lparr>query_count := query_count st + of_nat rows,
                   hit_count := hit_count st + (of_nat rows - of_nat (length (cache_expired_ids acc))
                                                - of_nat (length (cache_not_found_ids acc)))\<rparr>;
          r1 = (if cache_not_found_ids acc = [] \<and> allow_read_expired_keys cfg
                   \<and> cache_expired_ids acc \<noteq> []
                then tryPushToUpdateQueueOrThrow cfg (UpdateUnit (group_keys cfg (cache_expired_ids acc))) st1
                else Inr st1)
      in case r1 of
           Inl e \<Rightarrow> Inl e
         | Inr st2 \<Rightarrow>
             (let r2 =
                (if cache_not_found_ids acc \<noteq> [] then
                   (let required_ids = group_keys cfg (cache_not_found_ids acc)
                                  @ group_keys cfg (cache_expired_ids acc);
                        u = UpdateUnit required_ids
                    in case tryPushToUpdateQueueOrThrow cfg u st2 of
                         Inl e \<Rightarrow> Inl e
                       | Inr st3 \<Rightarrow>
                           (case waitForCurrentUpdateFinish worker u st3 of
                              (u', st4) \<Rightarrow>
                                prepareAnswer cfg u' (string_on_cell_updated a)
                                  (string_on_id_not_found get_default) now' st4 acc))
                 else Inr (st2, acc))
              in case r2 of
                   Inl e \<Rightarrow> Inl e
                 | Inr (st5, acc') \<Rightarrow>
                     Inr (st5, string_emit_loop (map_s acc') get_default 0 ids (out acc'))))"

text \<open>
  \<^verbatim>\<open>getItemsString\<close>: the optimistic pass at the clock \<open>now0\<close>, and the pessimistic part on
  the emptied column when the pass was left early. The cache is taken to be the same in
  both passes.
\<close>

definition getItemsString ::
  "config \<Rightarrow> nat \<Rightarrow> key list \<Rightarrow> column_string \<Rightarrow> (nat \<Rightarrow> string) \<Rightarrow> time_point \<Rightarrow> time_point \<Rightarrow>
   (update_unit \<Rightarrow> string cache \<Rightarrow> (key \<rightharpoonup> bool) \<times> string cache) \<Rightarrow> time_point \<Rightarrow> string cache \<Rightarrow>
   error + string cache \<times> column_string" where
  "getItemsString cfg a ids col0 get_default now0 now worker now' st =
     (case string_optimistic_loop cfg st a get_default now0 0 ids col0 of
        (found_outdated_values, col1) \<Rightarrow>
          if \<not> found_outdated_values then
            Inr (st\<lparr>query_count := query_count st + of_nat (length ids),
                    hit_count := hit_count st + of_nat (length ids)\<rparr>, col1)
          else getItemsString_pessimistic cfg a ids (col1\<lparr>chars := [], offsets := []\<rparr>)
                 get_default now worker now' st)"

section \<open>Notions used in the statements\<close>

text \<open>
  The three outcomes of \<^verbatim>\<open>findCellIdx\<close> as the lookups test them: \<^verbatim>\<open>valid\<close>; not valid
  and \<^verbatim>\<open>outdated\<close>; neither.
\<close>

definition is_hit :: "config \<Rightarrow> 'v cache \<Rightarrow> time_point \<Rightarrow> key \<Rightarrow> bool" where
  "is_hit cfg st now k \<longleftrightarrow> valid (findCellIdx cfg st k now)"

definition is_expired :: "config \<Rightarrow> 'v cache \<Rightarrow> time_point \<Rightarrow> key \<Rightarrow> bool" where
  "is_expired cfg st now k \<longleftrightarrow>
     \<not> valid (findCellIdx cfg st k now) \<and> outdated (findCellIdx cfg st k now)"

definition is_not_found :: "config \<Rightarrow> 'v cache \<Rightarrow> time_point \<Rightarrow> key \<Rightarrow> bool" where
  "is_not_found cfg st now k \<longleftrightarrow>
     \<not> valid (findCellIdx cfg st k now) \<and> \<not> outdated (findCellIdx cfg st k now)"

text \<open>
  What a row reads from the cell of its key: the row's own default when the cell is marked
  default, the converted payload of the attribute otherwise.
\<close>

definition cached_value ::
  "config \<Rightarrow> 'v cache \<Rightarrow> nat \<Rightarrow> ('v \<Rightarrow> 'o) \<Rightarrow> (nat \<Rightarrow> 'o) \<Rightarrow> nat \<Rightarrow> key \<Rightarrow> 'o" where
  "cached_value cfg st a static_cast get_default row k =
     (if is_default (cells st ! getCellIdx cfg st k) then get_default row
      else static_cast (arrays (attributes st ! a) ! getCellIdx cfg st k))"

text \<open>The locals of the numeric lookup before its classify pass.\<close>

definition init_number :: "'o list \<Rightarrow> 'o number_locals" where
  "init_number out0 = \<lparr>cache_expired_ids = [], cache_not_found_ids = [], cache_hit = 0, out = out0\<rparr>"

text \<open>The locals of the string lookup before its second classify pass.\<close>

definition init_string :: "column_string \<Rightarrow> string_locals" where
  "init_string col = \<lparr>cache_expired_ids = [], cache_not_found_ids = [], cache_hit = 0,
                       out = col, map_s = Map.empty, total_length = 0\<rparr>"

definition empty_column :: column_string where
  "empty_column = \<lparr>chars = [], offsets = []\<rparr>"

text \<open>The expiry that \<^verbatim>\<open>prepareAnswer\<close> computes when the engine is in state \<open>eng\<close>.\<close>

definition ttl_expiry :: "config \<Rightarrow> time_point \<Rightarrow> nat \<Rightarrow> time_point" where
  "ttl_expiry cfg now eng =
     (if min_sec cfg \<noteq> 0 \<and> max_sec cfg \<noteq> 0
      then now + int (uniform_int_distribution (min_sec cfg) (max_sec cfg) (fst (rnd_gen cfg eng)))
      else time_point_max)"

text \<open>The table is not empty and every attribute array has one payload per cell.\<close>

definition attrs_ok :: "'v cache \<Rightarrow> bool" where
  "attrs_ok st \<longleftrightarrow>
     cells st \<noteq> [] \<and> (\<forall>a \<in> set (attributes st). length (arrays a) = length (cells st))"

text \<open>Slot \<open>i\<close> holds key \<open>k\<close> as a default: flag, expiry from the lifetime, null payloads.\<close>

definition slot_defaulted :: "config \<Rightarrow> time_point \<Rightarrow> 'v cache \<Rightarrow> nat \<Rightarrow> key \<Rightarrow> bool" where
  "slot_defaulted cfg now st i k \<longleftrightarrow>
     cell_id (cells st ! i) = k \<and> is_default (cells st ! i)
     \<and> (\<exists>eng. expires_at (cells st ! i) = ttl_expiry cfg now eng)
     \<and> (\<forall>a \<in> set (attributes st). arrays a ! i = null_value a)"

text \<open>
  The never-occupied slots (stored id 0, not the zero slot) that some requested key with a
  false found mask maps to.
\<close>

definition fresh_slots :: "config \<Rightarrow> update_unit \<Rightarrow> 'v cache \<Rightarrow> key list \<Rightarrow> nat set" where
  "fresh_slots cfg u st ks =
     {i. i \<noteq> zero_cell_idx cfg \<and> cell_id (cells st ! i) = 0
         \<and> (\<exists>k \<in> set ks. found_ids_mask u k = Some False \<and> getCellIdx cfg st k = i)}"

text \<open>The column after \<^verbatim>\<open>insertData\<close> of each string of a list, in order.\<close>

definition append_rows :: "column_string \<Rightarrow> string list \<Rightarrow> column_string" where
  "append_rows col vs = foldl (\<lambda>c s. insertData s c) col vs"



text \<open>
  The payload that \<^verbatim>\<open>prepareAnswer\<close> reads for the key \<open>k\<close> of a unit when the key is
  marked found. \<open>st\<close> is the cache as the update left it and \<open>req\<close> the requested ids in
  their order. The handler reads the cell of \<open>k\<close> at the moment of its turn: a key that
  comes before \<open>k\<close> in \<open>req\<close>, is marked not found and has the same cell has by then put
  the null value there.
\<close>

definition answer_payload :: "config \<Rightarrow> 'v cache \<Rightarrow> nat \<Rightarrow> (key \<rightharpoonup> bool) \<Rightarrow> key list \<Rightarrow> key \<Rightarrow> 'v" where
  "answer_payload cfg st a found req k =
     (if \<exists>k' \<in> set (takeWhile (\<lambda>x. x \<noteq> k) req).
           found k' = Some False \<and> getCellIdx cfg st k' = getCellIdx cfg st k
      then null_value (attributes st ! a)
      else arrays (attributes st ! a) ! getCellIdx cfg st k)"



section \<open>A small cache for the examples\<close>

text \<open>
  Two cells. Slot 0 was never occupied; slot 1 holds key 5 until time 50. Keys 5 and 7 both
  map to slot 1. The lifetime is 10 to 20 seconds, stale reads are allowed, the update
  queue has room for one unit, and the maps iterate in the order of insertion.
\<close>

definition ex_cfg :: config where
  "ex_cfg = \<lparr>hash = unat, zero_cell_idx = 0, min_sec = 10, max_sec = 20,
      allow_read_expired_keys = True, max_update_queue_size = 1,
      rnd_gen = (\<lambda>s. (s, Suc s)), map_order = (\<lambda>ks. ks)\<rparr>"

definition ex_cells :: "cell list" where
  "ex_cells = [\<lparr>cell_id = 0, expires_at = 0, is_default = False\<rparr>,
               \<lparr>cell_id = 5, expires_at = 50, is_default = False\<rparr>]"

definition ex_cache :: "'v attribute list \<Rightarrow> 'v cache" where
  "ex_cache attrs = \<lparr>cells = ex_cells, attributes = attrs, element_count = 1, query_count = 0,
      hit_count = 0, update_queue = [], rnd_engine = 3, rw_lock = Unlocked, cell_writes = [],
      backoff_end_time = 130\<rparr>"

definition ex_num :: "nat cache" where
  "ex_num = ex_cache [\<lparr>null_value = 0, arrays = [40, 55]\<rparr>, \<lparr>null_value = 9, arrays = [1, 2]\<rparr>]"

definition ex_str :: "string cache" where
  "ex_str = ex_cache [\<lparr>null_value = ''null'', arrays = [''zero'', ''five'']\<rparr>]"

text \<open>A completed unit: the requested ids, and those of them that the source found.\<close>

definition ex_unit :: "key list \<Rightarrow> key list \<Rightarrow> update_unit" where
  "ex_unit ks found =
     \<lparr>requested_ids = ks, found_ids_mask = map_of (map (\<lambda>k. (k, k \<in> set found)) ks)\<rparr>"

definition ex_default :: "nat \<Rightarrow> nat" where
  "ex_default row = 1000 + row"

definition ex_default_s :: "nat \<Rightarrow> string" where
  "ex_default_s row = (if row = 0 then ''d0'' else ''d1'')"

text \<open>The locals of the numeric lookup of the ids 7, 5, 7 at time 100, after its classify pass
  with stale reads off.\<close>

definition ex_locals :: "nat number_locals" where
  "ex_locals = \<lparr>cache_expired_ids = [(5, [1])], cache_not_found_ids = [(7, [0, 2])],
      cache_hit = 0, out = [0, 0, 0]\<rparr>"

text \<open>
  A worker that takes the unit off the queue, leaves the cells as they are and finds the
  keys of \<open>found\<close>.
\<close>

definition ex_worker :: "key list \<Rightarrow> update_unit \<Rightarrow> 'v cache \<Rightarrow> (key \<rightharpoonup> bool) \<times> 'v cache" where
  "ex_worker found u st =
     (map_of (map (\<lambda>k. (k, k \<in> set found)) (requested_ids u)), st\<lparr>update_queue := tl (update_queue st)\<rparr>)"

text \<open>
  A worker that takes the unit off the queue, stores key 5 with the payload \<open>v\<close> of
  attribute 0 in slot 1, valid until time 200, and finds key 5 only.
\<close>

definition ex_fetch :: "'v \<Rightarrow> update_unit \<Rightarrow> 'v cache \<Rightarrow> (key \<rightharpoonup> bool) \<times> 'v cache" where
  "ex_fetch v u st =
     (map_of (map (\<lambda>k. (k, k = 5)) (requested_ids u)),
      st\<lparr>cells := (cells st)[1 := \<lparr>cell_id = 5, expires_at = 200, is_default = False\<rparr>],
         attributes := (attributes st)[0 := (attributes st ! 0)\<lparr>arrays := (arrays (attributes st ! 0))[1 := v]\<rparr>],
         update_queue := tl (update_queue st)\<rparr>)"

text \<open>The same cache with both slots never occupied.\<close>

definition ex_empty :: "nat cache" where
  "ex_empty = ex_num\<lparr>cells := [\<lparr>cell_id = 0, expires_at = 0, is_default = False\<rparr>,
                               \<lparr>cell_id = 0, expires_at = 0, is_default = False\<rparr>],
                     element_count := 0\<rparr>"

section \<open>Auxiliary lemmas\<close>

lemmas ex_defs = ex_cfg_def ex_cells_def ex_cache_def ex_num_def ex_str_def ex_unit_def
  numeral_2_eq_2 [symmetric]

lemmas ev_defs = ex_defs group_keys_def ex_default_def ex_locals_def getCellIdx_def prepareAnswer_def
  prepareAnswer_body_def findCellIdx_def Let_def write_cell_def setExpiresAt_def setDefault_def
  setDefaultAttributeValue_def uniform_int_distribution_def number_on_cell_updated_def
  number_on_id_not_found_def write_rows_def group_rows_def

lemma getCellIdx_less: "cells st \<noteq> [] \<Longrightarrow> getCellIdx cfg st k < length (cells st)"
  by (simp add: getCellIdx_def)

lemma cell_idx_findCellIdx [simp]: "cell_idx (findCellIdx cfg st k now) = getCellIdx cfg st k"
  by (simp add: findCellIdx_def Let_def)

lemma body_found:
  "found_ids_mask u k = Some True \<Longrightarrow>
   prepareAnswer_body cfg u f g now k (st, c) = Inr (st, f k (getCellIdx cfg st k) st c)"
  by (simp add: prepareAnswer_body_def Let_def)

lemma body_absent:
  "found_ids_mask u k = None \<Longrightarrow> prepareAnswer_body cfg u f g now k (st, c) = Inl OutOfRange"
  by (simp add: prepareAnswer_body_def Let_def)

lemma body_not_found:
  assumes "found_ids_mask u k = Some False" and "getCellIdx cfg st k < length (cells st)"
  shows "\<exists>st'. prepareAnswer_body cfg u f g now k (st, c) = Inr (st', g k (getCellIdx cfg st k) c)
     \<and> cells st' = (cells st)[getCellIdx cfg st k :=
          (cells st ! getCellIdx cfg st k)\<lparr>cell_id := k,
             expires_at := ttl_expiry cfg now (rnd_engine st), is_default := True\<rparr>]
     \<and> attributes st' = map (setDefaultAttributeValue (getCellIdx cfg st k)) (attributes st)
     \<and> element_count st' =
         (if cell_id (cells st ! getCellIdx cfg st k) = 0 \<and> getCellIdx cfg st k \<noteq> zero_cell_idx cfg
          then element_count st + 1 else element_count st)
     \<and> rw_lock st' = rw_lock st
     \<and> set (cell_writes st') = set (cell_writes st) \<union> {(getCellIdx cfg st k, rw_lock st)}"
  using assms
  by (auto simp add: prepareAnswer_body_def Let_def write_cell_def setExpiresAt_def setDefault_def
      ttl_expiry_def split: prod.splits)

lemma body_cases:
  assumes "prepareAnswer_body cfg u f g now k (st, c) = Inr (st', c')"
  shows "found_ids_mask u k = Some True \<or> found_ids_mask u k = Some False"
  using assms by (cases "found_ids_mask u k") (auto simp: body_absent)

lemma body_shape:
  assumes "prepareAnswer_body cfg u f g now k (st, c) = Inr (st', c')"
  shows "length (cells st') = length (cells st)
     \<and> map null_value (attributes st') = map null_value (attributes st)
     \<and> map (\<lambda>a. length (arrays a)) (attributes st') = map (\<lambda>a. length (arrays a)) (attributes st)
     \<and> rw_lock st' = rw_lock st"
  using assms
  by (auto simp add: prepareAnswer_body_def Let_def write_cell_def setDefaultAttributeValue_def
      split: prod.splits option.splits if_splits)

lemma body_getCellIdx:
  assumes "prepareAnswer_body cfg u f g now k (st, c) = Inr (st', c')"
  shows "getCellIdx cfg st' k' = getCellIdx cfg st k'"
  using body_shape [OF assms] by (simp add: getCellIdx_def)

lemma body_attrs_ok:
  assumes "prepareAnswer_body cfg u f g now k (st, c) = Inr (st', c')" and "attrs_ok st"
  shows "attrs_ok st'"
proof -
  have sh: "length (cells st') = length (cells st)"
    "map (\<lambda>a. length (arrays a)) (attributes st') = map (\<lambda>a. length (arrays a)) (attributes st)"
    using body_shape [OF assms(1)] by simp_all
  have "\<forall>n \<in> set (map (\<lambda>a. length (arrays a)) (attributes st)). n = length (cells st)"
    using assms(2) by (auto simp: attrs_ok_def)
  then have "\<forall>n \<in> set (map (\<lambda>a. length (arrays a)) (attributes st')). n = length (cells st')"
    using sh by simp
  moreover have "cells st' \<noteq> []" using sh(1) assms(2) by (auto simp: attrs_ok_def)
  ultimately show ?thesis by (auto simp: attrs_ok_def)
qed

lemma body_frame:
  assumes "prepareAnswer_body cfg u f g now k (st, c) = Inr (st', c')"
    and "found_ids_mask u k = Some True \<or> getCellIdx cfg st k \<noteq> i"
  shows "cells st' ! i = cells st ! i
     \<and> map (\<lambda>a. arrays a ! i) (attributes st') = map (\<lambda>a. arrays a ! i) (attributes st)"
  using assms
  by (auto simp add: prepareAnswer_body_def Let_def write_cell_def setDefaultAttributeValue_def
      split: prod.splits option.splits if_splits)

lemma body_takes:
  assumes "prepareAnswer_body cfg u f g now k (st, c) = Inr (st', c')"
    and "found_ids_mask u k = Some False" and "attrs_ok st"
  shows "slot_defaulted cfg now st' (getCellIdx cfg st k) k"
proof -
  have lt: "getCellIdx cfg st k < length (cells st)"
    using assms(3) by (simp add: attrs_ok_def getCellIdx_less)
  from body_not_found [OF assms(2) lt, of f g now c] assms(1)
  have cs: "cells st' = (cells st)[getCellIdx cfg st k :=
          (cells st ! getCellIdx cfg st k)\<lparr>cell_id := k,
             expires_at := ttl_expiry cfg now (rnd_engine st), is_default := True\<rparr>]"
    and as: "attributes st' = map (setDefaultAttributeValue (getCellIdx cfg st k)) (attributes st)"
    by auto
  have "\<forall>a \<in> set (attributes st'). arrays a ! getCellIdx cfg st k = null_value a"
    using assms(3) lt by (auto simp: as attrs_ok_def setDefaultAttributeValue_def)
  moreover have "\<exists>eng. expires_at (cells st' ! getCellIdx cfg st k) = ttl_expiry cfg now eng"
    using lt by (auto simp: cs)
  ultimately show ?thesis using lt by (simp add: slot_defaulted_def cs)
qed

lemma body_keeps:
  assumes "prepareAnswer_body cfg u f g now k' (st, c) = Inr (st', c')"
    and "found_ids_mask u k' = Some True \<or> getCellIdx cfg st k' \<noteq> i"
    and "slot_defaulted cfg now st i k"
  shows "slot_defaulted cfg now st' i k"
proof -
  have c: "cells st' ! i = cells st ! i"
    and m: "map (\<lambda>a. arrays a ! i) (attributes st') = map (\<lambda>a. arrays a ! i) (attributes st)"
    using body_frame [OF assms(1,2)] by simp_all
  have n: "map null_value (attributes st') = map null_value (attributes st)"
    using body_shape [OF assms(1)] by simp
  have "map (\<lambda>a. arrays a ! i) (attributes st) = map null_value (attributes st)"
    using assms(3) by (simp add: slot_defaulted_def)
  then have "map (\<lambda>a. arrays a ! i) (attributes st') = map null_value (attributes st')"
    using m n by simp
  then have "\<forall>a \<in> set (attributes st'). arrays a ! i = null_value a"
    by simp
  then show ?thesis using assms(3) c by (simp add: slot_defaulted_def)
qed

lemma loop_append:
  "prepareAnswer_loop cfg u f g now (xs @ ys) sc =
     (case prepareAnswer_loop cfg u f g now xs sc of
        Inl e \<Rightarrow> Inl e
      | Inr sc' \<Rightarrow> prepareAnswer_loop cfg u f g now ys sc')"
  by (induction xs arbitrary: sc) (auto split: sum.splits)

lemma loop_shape:
  assumes "prepareAnswer_loop cfg u f g now ks (st, c) = Inr (st', c')"
  shows "length (cells st') = length (cells st) \<and> rw_lock st' = rw_lock st
         \<and> (attrs_ok st \<longrightarrow> attrs_ok st')"
  using assms
proof (induction ks arbitrary: st c)
  case Nil
  then show ?case by simp
next
  case (Cons k ks)
  from Cons.prems obtain st1 c1 where
    b: "prepareAnswer_body cfg u f g now k (st, c) = Inr (st1, c1)"
    and l: "prepareAnswer_loop cfg u f g now ks (st1, c1) = Inr (st', c')"
    by (auto split: sum.splits)
  from Cons.IH [OF l] body_shape [OF b] body_attrs_ok [OF b] show ?case by auto
qed

lemma loop_getCellIdx:
  assumes "prepareAnswer_loop cfg u f g now ks (st, c) = Inr (st', c')"
  shows "getCellIdx cfg st' k = getCellIdx cfg st k"
  using loop_shape [OF assms] by (simp add: getCellIdx_def)

lemma loop_keeps:
  assumes "prepareAnswer_loop cfg u f g now ks (st, c) = Inr (st', c')"
    and "\<forall>k' \<in> set ks. found_ids_mask u k' = Some False \<longrightarrow> getCellIdx cfg st k' \<noteq> i"
    and "slot_defaulted cfg now st i k"
  shows "slot_defaulted cfg now st' i k"
  using assms
proof (induction ks arbitrary: st c)
  case Nil
  then show ?case by simp
next
  case (Cons k' ks)
  from Cons.prems(1) obtain st1 c1 where
    b: "prepareAnswer_body cfg u f g now k' (st, c) = Inr (st1, c1)"
    and l: "prepareAnswer_loop cfg u f g now ks (st1, c1) = Inr (st', c')"
    by (auto split: sum.splits)
  have "found_ids_mask u k' = Some True \<or> getCellIdx cfg st k' \<noteq> i"
    using body_cases [OF b] Cons.prems(2) by auto
  then have d: "slot_defaulted cfg now st1 i k"
    using body_keeps [OF b _ Cons.prems(3)] by simp
  have "\<forall>k'' \<in> set ks. found_ids_mask u k'' = Some False \<longrightarrow> getCellIdx cfg st1 k'' \<noteq> i"
    using Cons.prems(2) by (simp add: body_getCellIdx [OF b])
  from Cons.IH [OF l this d] show ?case .
qed

lemma loop_takes:
  assumes "prepareAnswer_loop cfg u f g now (pre @ k # post) (st, c) = Inr (st', c')"
    and "found_ids_mask u k = Some False"
    and "\<forall>k' \<in> set post. found_ids_mask u k' = Some False \<longrightarrow>
           getCellIdx cfg st k' \<noteq> getCellIdx cfg st k"
    and "attrs_ok st"
  shows "slot_defaulted cfg now st' (getCellIdx cfg st k) k"
proof -
  from assms(1) obtain st1 c1 st2 c2 where
    p: "prepareAnswer_loop cfg u f g now pre (st, c) = Inr (st1, c1)"
    and b: "prepareAnswer_body cfg u f g now k (st1, c1) = Inr (st2, c2)"
    and l: "prepareAnswer_loop cfg u f g now post (st2, c2) = Inr (st', c')"
    by (auto simp: loop_append split: sum.splits)
  have i1: "\<And>x. getCellIdx cfg st1 x = getCellIdx cfg st x"
    using loop_getCellIdx [OF p] by simp
  have i2: "\<And>x. getCellIdx cfg st2 x = getCellIdx cfg st x"
    using body_getCellIdx [OF b] i1 by simp
  have ok1: "attrs_ok st1" using loop_shape [OF p] assms(4) by simp
  have d: "slot_defaulted cfg now st2 (getCellIdx cfg st k) k"
    using body_takes [OF b assms(2) ok1] by (simp add: i1)
  have "\<forall>k' \<in> set post. found_ids_mask u k' = Some False \<longrightarrow>
           getCellIdx cfg st2 k' \<noteq> getCellIdx cfg st k"
    using assms(3) by (simp add: i2)
  from loop_keeps [OF l this d] show ?thesis .
qed

lemma loop_total:
  assumes "\<forall>k \<in> set ks. found_ids_mask u k \<noteq> None"
  shows "\<exists>sc'. prepareAnswer_loop cfg u f g now ks sc = Inr sc'"
  using assms
proof (induction ks arbitrary: sc)
  case Nil
  then show ?case by simp
next
  case (Cons k ks)
  obtain st c where sc: "sc = (st, c)" by (cases sc)
  from Cons.prems obtain b where m: "found_ids_mask u k = Some b" by auto
  have "\<exists>sc1. prepareAnswer_body cfg u f g now k sc = Inr sc1"
    using m unfolding sc by (simp add: prepareAnswer_body_def Let_def split: prod.splits)
  then obtain sc1 where "prepareAnswer_body cfg u f g now k sc = Inr sc1" ..
  moreover have "\<exists>sc'. prepareAnswer_loop cfg u f g now ks sc1 = Inr sc'"
    using Cons by simp
  ultimately show ?case by simp
qed

lemma group_rows_push_back_row:
  "group_rows (push_back_row k r m) k' = (if k' = k then group_rows m k @ [r] else group_rows m k')"
  by (induction m) (auto simp: group_rows_def)

lemma set_keys_push_back_row: "fst ` set (push_back_row k r m) = insert k (fst ` set m)"
  by (induction k r m rule: push_back_row.induct) auto

lemma distinct_keys_push_back_row:
  "distinct (map fst m) \<Longrightarrow> distinct (map fst (push_back_row k r m))"
  by (induction k r m rule: push_back_row.induct) (auto simp: set_keys_push_back_row)

lemma group_rows_Nil: "group_rows [] k = []"
  by (simp add: group_rows_def)

lemma number_loop_snoc:
  "number_classify_loop cfg st a sc gd now row (ks @ [k]) acc =
     number_classify_body cfg st a sc gd now (row + length ks) k
       (number_classify_loop cfg st a sc gd now row ks acc)"
  by (induction ks arbitrary: row acc) auto

lemma update_routine_eq:
  "update_routine st a sc gd (findCellIdx cfg st k now) row ou = ou[row := cached_value cfg st a sc gd row k]"
  by (simp add: update_routine_def cached_value_def isDefault_def Let_def)

lemma number_body_cases:
  "number_classify_body cfg st a sc gd now row k acc =
     (if is_hit cfg st now k then
        acc\<lparr>cache_hit := Suc (cache_hit acc), out := (out acc)[row := cached_value cfg st a sc gd row k]\<rparr>
      else if is_expired cfg st now k then
        (if allow_read_expired_keys cfg then
           acc\<lparr>cache_expired_ids := push_back_row k row (cache_expired_ids acc),
               out := (out acc)[row := cached_value cfg st a sc gd row k]\<rparr>
         else acc\<lparr>cache_expired_ids := push_back_row k row (cache_expired_ids acc)\<rparr>)
      else acc\<lparr>cache_not_found_ids := push_back_row k row (cache_not_found_ids acc)\<rparr>)"
  by (simp add: number_classify_body_def is_hit_def is_expired_def Let_def update_routine_eq)

lemma class_exclusive:
  "is_hit cfg st now k \<or> is_expired cfg st now k \<or> is_not_found cfg st now k"
  "\<not> (is_hit cfg st now k \<and> is_expired cfg st now k)"
  "\<not> (is_hit cfg st now k \<and> is_not_found cfg st now k)"
  "\<not> (is_expired cfg st now k \<and> is_not_found cfg st now k)"
  by (auto simp: is_hit_def is_expired_def is_not_found_def)

lemma number_loop_expired:
  "group_rows (cache_expired_ids (number_classify_loop cfg st a sc gd now 0 ids (init_number out0))) k =
     filter (\<lambda>r. ids ! r = k \<and> is_expired cfg st now k) [0..<length ids]"
proof (induction ids rule: rev_induct)
  case Nil
  then show ?case by (simp add: init_number_def group_rows_Nil)
next
  case (snoc x xs)
  have f: "filter (\<lambda>r. (xs @ [x]) ! r = k \<and> is_expired cfg st now k) [0..<length xs]
         = filter (\<lambda>r. xs ! r = k \<and> is_expired cfg st now k) [0..<length xs]"
    by (rule filter_cong) (auto simp: nth_append)
  show ?case
    using snoc class_exclusive[of cfg st now x]
    by (auto simp add: number_loop_snoc number_body_cases group_rows_push_back_row f)
qed

lemma number_loop_not_found:
  "group_rows (cache_not_found_ids (number_classify_loop cfg st a sc gd now 0 ids (init_number out0))) k =
     filter (\<lambda>r. ids ! r = k \<and> is_not_found cfg st now k) [0..<length ids]"
proof (induction ids rule: rev_induct)
  case Nil
  then show ?case by (simp add: init_number_def group_rows_Nil)
next
  case (snoc x xs)
  have f: "filter (\<lambda>r. (xs @ [x]) ! r = k \<and> is_not_found cfg st now k) [0..<length xs]
         = filter (\<lambda>r. xs ! r = k \<and> is_not_found cfg st now k) [0..<length xs]"
    by (rule filter_cong) (auto simp: nth_append)
  show ?case
    using snoc class_exclusive[of cfg st now x]
    by (auto simp add: number_loop_snoc number_body_cases group_rows_push_back_row f)
qed

lemma number_loop_expired_keys:
  "set (map fst (cache_expired_ids (number_classify_loop cfg st a sc gd now 0 ids (init_number out0))))
     = {k \<in> set ids. is_expired cfg st now k}
   \<and> distinct (map fst (cache_expired_ids (number_classify_loop cfg st a sc gd now 0 ids (init_number out0))))"
proof (induction ids rule: rev_induct)
  case Nil
  then show ?case by (simp add: init_number_def)
next
  case (snoc x xs)
  then show ?case
    using class_exclusive[of cfg st now x]
    by (auto simp add: number_loop_snoc number_body_cases set_keys_push_back_row
        distinct_keys_push_back_row)
qed

lemma number_loop_not_found_keys:
  "set (map fst (cache_not_found_ids (number_classify_loop cfg st a sc gd now 0 ids (init_number out0))))
     = {k \<in> set ids. is_not_found cfg st now k}
   \<and> distinct (map fst (cache_not_found_ids (number_classify_loop cfg st a sc gd now 0 ids (init_number out0))))"
proof (induction ids rule: rev_induct)
  case Nil
  then show ?case by (simp add: init_number_def)
next
  case (snoc x xs)
  then show ?case
    using class_exclusive[of cfg st now x]
    by (auto simp add: number_loop_snoc number_body_cases set_keys_push_back_row
        distinct_keys_push_back_row)
qed

lemma number_loop_hits:
  "cache_hit (number_classify_loop cfg st a sc gd now 0 ids (init_number out0))
     = length (filter (is_hit cfg st now) ids)"
proof (induction ids rule: rev_induct)
  case Nil
  then show ?case by (simp add: init_number_def)
next
  case (snoc x xs)
  then show ?case
    by (auto simp add: number_loop_snoc number_body_cases)
qed

lemma number_loop_out_length:
  "length (out (number_classify_loop cfg st a sc gd now 0 ids (init_number out0))) = length out0"
proof (induction ids rule: rev_induct)
  case Nil
  then show ?case by (simp add: init_number_def)
next
  case (snoc x xs)
  then show ?case
    by (auto simp add: number_loop_snoc number_body_cases)
qed

lemma number_loop_out:
  assumes "r < length out0"
  shows "out (number_classify_loop cfg st a sc gd now 0 ids (init_number out0)) ! r =
     (if r < length ids \<and> (is_hit cfg st now (ids ! r)
           \<or> is_expired cfg st now (ids ! r) \<and> allow_read_expired_keys cfg)
      then cached_value cfg st a sc gd r (ids ! r) else out0 ! r)"
proof (induction ids rule: rev_induct)
  case Nil
  then show ?case by (simp add: init_number_def)
next
  case (snoc x xs)
  have l: "length (out (number_classify_loop cfg st a sc gd now 0 xs (init_number out0))) = length out0"
    by (rule number_loop_out_length)
  show ?case
  proof (cases "r = length xs")
    case True
    then show ?thesis
      using assms l class_exclusive[of cfg st now x] snoc.IH
      by (auto simp add: number_loop_snoc number_body_cases)
  next
    case False
    then show ?thesis
      using assms l
      by (auto simp add: number_loop_snoc number_body_cases snoc.IH nth_append)
  qed
qed

lemma finite_fresh_slots: "finite (fresh_slots cfg u st ks)"
proof -
  have "fresh_slots cfg u st ks \<subseteq> getCellIdx cfg st ` set ks"
    by (auto simp: fresh_slots_def)
  then show ?thesis by (rule finite_subset) simp
qed

lemma body_element_count:
  assumes "found_ids_mask u k = Some b"
  shows "\<exists>st' c'. prepareAnswer_body cfg u f g now k (st, c) = Inr (st', c')
     \<and> element_count st' =
         (if \<not> b \<and> cell_id (cells st ! getCellIdx cfg st k) = 0
             \<and> getCellIdx cfg st k \<noteq> zero_cell_idx cfg
          then element_count st + 1 else element_count st)"
  using assms
  by (auto simp add: prepareAnswer_body_def Let_def write_cell_def split: prod.splits)

lemma body_fresh_slots:
  assumes b: "prepareAnswer_body cfg u f g now k (st, c) = Inr (st1, c1)"
    and z: "zero_cell_idx cfg = getCellIdx cfg st 0" and ne: "cells st \<noteq> []"
  shows "fresh_slots cfg u st (k # ks) =
           fresh_slots cfg u st1 ks \<union>
           (if found_ids_mask u k = Some False \<and> cell_id (cells st ! getCellIdx cfg st k) = 0
               \<and> getCellIdx cfg st k \<noteq> zero_cell_idx cfg
            then {getCellIdx cfg st k} else {})
         \<and> (found_ids_mask u k = Some False \<longrightarrow> getCellIdx cfg st k \<notin> fresh_slots cfg u st1 ks)"
proof (cases "found_ids_mask u k = Some False")
  case False
  then have t: "found_ids_mask u k = Some True" using body_cases [OF b] by simp
  then have "st1 = st" using b by (simp add: body_found)
  then show ?thesis using False t by (auto simp: fresh_slots_def)
next
  case True
  let ?i = "getCellIdx cfg st k"
  have lt: "?i < length (cells st)" using ne by (rule getCellIdx_less)
  from body_not_found [OF True lt, of f g now c] b
  have cs: "cells st1 = (cells st)[?i := (cells st ! ?i)\<lparr>cell_id := k,
             expires_at := ttl_expiry cfg now (rnd_engine st), is_default := True\<rparr>]"
    by auto
  have g: "\<And>x. getCellIdx cfg st1 x = getCellIdx cfg st x"
    using body_getCellIdx [OF b] by simp
  have other: "\<And>j. j \<noteq> ?i \<Longrightarrow> cells st1 ! j = cells st ! j"
    by (simp add: cs)
  have self: "cell_id (cells st1 ! ?i) = k" using lt by (simp add: cs)
  have notin: "?i \<notin> fresh_slots cfg u st1 ks"
  proof (cases "k = 0")
    case True
    then have "?i = zero_cell_idx cfg" using z by simp
    then show ?thesis by (simp add: fresh_slots_def)
  next
    case False
    then show ?thesis using self by (simp add: fresh_slots_def)
  qed
  have "fresh_slots cfg u st (k # ks) =
           fresh_slots cfg u st1 ks \<union>
           (if cell_id (cells st ! ?i) = 0 \<and> ?i \<noteq> zero_cell_idx cfg then {?i} else {})"
  proof (rule set_eqI)
    fix j
    show "j \<in> fresh_slots cfg u st (k # ks) \<longleftrightarrow>
          j \<in> fresh_slots cfg u st1 ks \<union>
           (if cell_id (cells st ! ?i) = 0 \<and> ?i \<noteq> zero_cell_idx cfg then {?i} else {})"
    proof (cases "j = ?i")
      case True
      then show ?thesis using notin \<open>found_ids_mask u k = Some False\<close>
        by (auto simp: fresh_slots_def)
    next
      case False
      then show ?thesis using other [OF False] \<open>found_ids_mask u k = Some False\<close>
        by (auto simp: fresh_slots_def g)
    qed
  qed
  then show ?thesis using True notin by simp
qed

lemma loop_element_count:
  assumes "prepareAnswer_loop cfg u f g now ks (st, c) = Inr (st', c')"
    and "zero_cell_idx cfg = getCellIdx cfg st 0" and "cells st \<noteq> []"
  shows "element_count st' = element_count st + of_nat (card (fresh_slots cfg u st ks))"
  using assms
proof (induction ks arbitrary: st c)
  case Nil
  then show ?case by (simp add: fresh_slots_def)
next
  case (Cons k ks)
  from Cons.prems(1) obtain st1 c1 where
    b: "prepareAnswer_body cfg u f g now k (st, c) = Inr (st1, c1)"
    and l: "prepareAnswer_loop cfg u f g now ks (st1, c1) = Inr (st', c')"
    by (auto split: sum.splits)
  have z1: "zero_cell_idx cfg = getCellIdx cfg st1 0"
    using Cons.prems(2) body_getCellIdx [OF b] by simp
  have ne1: "cells st1 \<noteq> []" using body_shape [OF b] Cons.prems(3) by auto
  have ih: "element_count st' = element_count st1 + of_nat (card (fresh_slots cfg u st1 ks))"
    by (rule Cons.IH [OF l z1 ne1])
  obtain bb where m: "found_ids_mask u k = Some bb" using body_cases [OF b] by auto
  from body_element_count [OF m, of cfg f g now st c] b
  have ec: "element_count st1 =
         (if \<not> bb \<and> cell_id (cells st ! getCellIdx cfg st k) = 0
             \<and> getCellIdx cfg st k \<noteq> zero_cell_idx cfg
          then element_count st + 1 else element_count st)"
    by auto
  note fs = body_fresh_slots [OF b Cons.prems(2,3), of ks]
  show ?case
  proof (cases "\<not> bb \<and> cell_id (cells st ! getCellIdx cfg st k) = 0
             \<and> getCellIdx cfg st k \<noteq> zero_cell_idx cfg")
    case True
    then have "fresh_slots cfg u st (k # ks) = insert (getCellIdx cfg st k) (fresh_slots cfg u st1 ks)"
      and "getCellIdx cfg st k \<notin> fresh_slots cfg u st1 ks"
      using fs m by auto
    then have "card (fresh_slots cfg u st (k # ks)) = Suc (card (fresh_slots cfg u st1 ks))"
      using finite_fresh_slots [of cfg u st1 ks] by simp
    then show ?thesis using ih ec True by simp
  next
    case False
    then have "fresh_slots cfg u st (k # ks) = fresh_slots cfg u st1 ks"
      using fs m by auto
    then show ?thesis using ih ec False by auto
  qed
qed


lemma uniform_int_distribution_range:
  "a \<le> b \<Longrightarrow> a \<le> uniform_int_distribution a b raw \<and> uniform_int_distribution a b raw \<le> b"
proof -
  assume "a \<le> b"
  have "raw mod (b - a + 1) < b - a + 1" by simp
  then have "raw mod (b - a + 1) \<le> b - a" by linarith
  then show ?thesis using \<open>a \<le> b\<close> unfolding uniform_int_distribution_def by linarith
qed

lemma ttl_expiry_cases:
  "ttl_expiry cfg now eng = time_point_max
   \<or> (\<exists>raw. ttl_expiry cfg now eng = now + int (uniform_int_distribution (min_sec cfg) (max_sec cfg) raw))"
  by (auto simp: ttl_expiry_def)

lemma loop_null_values:
  assumes "prepareAnswer_loop cfg u f g now ks (st, c) = Inr (st', c')"
  shows "map null_value (attributes st') = map null_value (attributes st)"
  using assms
proof (induction ks arbitrary: st c)
  case Nil
  then show ?case by simp
next
  case (Cons k ks)
  from Cons.prems obtain st1 c1 where
    b: "prepareAnswer_body cfg u f g now k (st, c) = Inr (st1, c1)"
    and l: "prepareAnswer_loop cfg u f g now ks (st1, c1) = Inr (st', c')"
    by (auto split: sum.splits)
  from Cons.IH [OF l] body_shape [OF b] show ?case by simp
qed

lemma length_write_rows: "length (write_rows rs f ou) = length ou"
  unfolding write_rows_def by (induction rs arbitrary: ou) auto

lemma nth_write_rows:
  "r < length ou \<Longrightarrow> write_rows rs f ou ! r = (if r \<in> set rs then f r else ou ! r)"
  unfolding write_rows_def
proof (induction rs rule: rev_induct)
  case Nil
  then show ?case by simp
next
  case (snoc x xs)
  have "length (foldl (\<lambda>ou' row. ou'[row := f row]) ou xs) = length ou"
    using length_write_rows [of xs f ou] by (simp add: write_rows_def)
  then show ?case using snoc
    by (cases "x < length ou") (auto simp: nth_list_update)
qed

lemma number_on_id_not_found_out:
  "cache_expired_ids (number_on_id_not_found gd k i acc) = cache_expired_ids acc
   \<and> cache_not_found_ids (number_on_id_not_found gd k i acc) = cache_not_found_ids acc
   \<and> length (out (number_on_id_not_found gd k i acc)) = length (out acc)
   \<and> (r < length (out acc) \<longrightarrow> out (number_on_id_not_found gd k i acc) ! r =
        (if r \<in> set (group_rows (cache_not_found_ids acc) k) \<union> set (group_rows (cache_expired_ids acc) k)
         then gd r else out acc ! r))"
  by (simp add: number_on_id_not_found_def length_write_rows nth_write_rows)

lemma loop_all_false_out:
  assumes "prepareAnswer_loop cfg u (number_on_cell_updated a sc) (number_on_id_not_found gd) now ks (st, acc)
             = Inr (st', acc')"
    and "\<forall>k \<in> set ks. found_ids_mask u k = Some False"
    and "cells st \<noteq> []"
  shows "cache_expired_ids acc' = cache_expired_ids acc
   \<and> cache_not_found_ids acc' = cache_not_found_ids acc
   \<and> length (out acc') = length (out acc)
   \<and> (\<forall>r < length (out acc). out acc' ! r =
        (if \<exists>k \<in> set ks. r \<in> set (group_rows (cache_not_found_ids acc) k)
                            \<union> set (group_rows (cache_expired_ids acc) k)
         then gd r else out acc ! r))"
  using assms
proof (induction ks arbitrary: st acc)
  case Nil
  then show ?case by simp
next
  case (Cons k ks)
  let ?acc1 = "number_on_id_not_found gd k (getCellIdx cfg st k) acc"
  have m: "found_ids_mask u k = Some False" using Cons.prems(2) by simp
  have lt: "getCellIdx cfg st k < length (cells st)" using Cons.prems(3) by (rule getCellIdx_less)
  from body_not_found [OF m lt, of "number_on_cell_updated a sc" "number_on_id_not_found gd" now acc]
  obtain st1 where
    b: "prepareAnswer_body cfg u (number_on_cell_updated a sc) (number_on_id_not_found gd) now k (st, acc)
          = Inr (st1, ?acc1)"
    by auto
  then have l: "prepareAnswer_loop cfg u (number_on_cell_updated a sc) (number_on_id_not_found gd) now ks
                  (st1, ?acc1) = Inr (st', acc')"
    using Cons.prems(1) by simp
  have ne1: "cells st1 \<noteq> []" using body_shape [OF b] Cons.prems(3) by auto
  have ih: "cache_expired_ids acc' = cache_expired_ids ?acc1
   \<and> cache_not_found_ids acc' = cache_not_found_ids ?acc1
   \<and> length (out acc') = length (out ?acc1)
   \<and> (\<forall>r < length (out ?acc1). out acc' ! r =
        (if \<exists>k \<in> set ks. r \<in> set (group_rows (cache_not_found_ids ?acc1) k)
                            \<union> set (group_rows (cache_expired_ids ?acc1) k)
         then gd r else out ?acc1 ! r))"
    using Cons.IH [OF l _ ne1] Cons.prems(2) by simp
  note h = number_on_id_not_found_out [of gd k "getCellIdx cfg st k" acc]
  show ?case
  proof (intro conjI allI impI)
    fix r assume r: "r < length (out acc)"
    then have "out acc' ! r =
        (if \<exists>k \<in> set ks. r \<in> set (group_rows (cache_not_found_ids ?acc1) k)
                            \<union> set (group_rows (cache_expired_ids ?acc1) k)
         then gd r else out ?acc1 ! r)"
      using ih h by simp
    then show "out acc' ! r =
        (if \<exists>k' \<in> set (k # ks). r \<in> set (group_rows (cache_not_found_ids acc) k')
                            \<union> set (group_rows (cache_expired_ids acc) k')
         then gd r else out acc ! r)"
      using h [of r] r by auto
  qed (use ih h in simp_all)
qed

lemma loop_all_false_defaulted:
  assumes "prepareAnswer_loop cfg u f g now ks (st, c) = Inr (st', c')"
    and "\<forall>k \<in> set ks. found_ids_mask u k = Some False"
    and "attrs_ok st" and "k \<in> set ks"
  shows "\<exists>k' \<in> set ks. slot_defaulted cfg now st' (getCellIdx cfg st k) k'"
proof -
  from split_list_last_prop [of ks "\<lambda>x. getCellIdx cfg st x = getCellIdx cfg st k"] assms(4)
  obtain ys x zs where
    ks: "ks = ys @ x # zs" and x: "getCellIdx cfg st x = getCellIdx cfg st k"
    and zs: "\<forall>z \<in> set zs. getCellIdx cfg st z \<noteq> getCellIdx cfg st k"
    by blast
  have mx: "found_ids_mask u x = Some False" using assms(2) ks by simp
  have "slot_defaulted cfg now st' (getCellIdx cfg st x) x"
    using assms(1) mx _ assms(3) unfolding ks
  proof (rule loop_takes)
    show "\<forall>k' \<in> set zs. found_ids_mask u k' = Some False \<longrightarrow>
           getCellIdx cfg st k' \<noteq> getCellIdx cfg st x"
      using zs x by simp
  qed
  then show ?thesis using x ks by auto
qed

lemma string_loop_snoc:
  "string_classify_loop cfg st a gd now row (ks @ [k]) acc =
     string_classify_body cfg st a gd now (row + length ks) k
       (string_classify_loop cfg st a gd now row ks acc)"
  by (induction ks arbitrary: row acc) auto

lemma insert_value_routine_eq:
  "insert_value_routine st a gd (findCellIdx cfg st k now) row k acc =
     (if is_default (cells st ! getCellIdx cfg st k)
      then acc\<lparr>total_length := total_length acc + (length (gd row) + 1)\<rparr>
      else acc\<lparr>map_s := (map_s acc)(k \<mapsto> arrays (attributes st ! a) ! getCellIdx cfg st k),
               total_length := total_length acc
                  + (length (arrays (attributes st ! a) ! getCellIdx cfg st k) + 1)\<rparr>)"
  by (simp add: insert_value_routine_def isDefault_def Let_def)

lemma string_body_cases:
  "string_classify_body cfg st a gd now row k acc =
     (if is_hit cfg st now k then
        insert_value_routine st a gd (findCellIdx cfg st k now) row k
          (acc\<lparr>cache_hit := Suc (cache_hit acc)\<rparr>)
      else if is_expired cfg st now k then
        (if allow_read_expired_keys cfg then
           insert_value_routine st a gd (findCellIdx cfg st k now) row k
             (acc\<lparr>cache_expired_ids := push_back_row k row (cache_expired_ids acc)\<rparr>)
         else acc\<lparr>cache_expired_ids := push_back_row k row (cache_expired_ids acc)\<rparr>)
      else acc\<lparr>cache_not_found_ids := push_back_row k row (cache_not_found_ids acc)\<rparr>)"
  by (simp add: string_classify_body_def is_hit_def is_expired_def Let_def)

lemma string_loop_expired:
  "group_rows (cache_expired_ids (string_classify_loop cfg st a gd now 0 ids (init_string col))) k =
     filter (\<lambda>r. ids ! r = k \<and> is_expired cfg st now k) [0..<length ids]"
proof (induction ids rule: rev_induct)
  case Nil
  then show ?case by (simp add: init_string_def group_rows_Nil)
next
  case (snoc x xs)
  have f: "filter (\<lambda>r. (xs @ [x]) ! r = k \<and> is_expired cfg st now k) [0..<length xs]
         = filter (\<lambda>r. xs ! r = k \<and> is_expired cfg st now k) [0..<length xs]"
    by (rule filter_cong) (auto simp: nth_append)
  show ?case
    using snoc class_exclusive[of cfg st now x]
    by (auto simp add: string_loop_snoc string_body_cases insert_value_routine_eq
        group_rows_push_back_row f)
qed

lemma string_loop_not_found:
  "group_rows (cache_not_found_ids (string_classify_loop cfg st a gd now 0 ids (init_string col))) k =
     filter (\<lambda>r. ids ! r = k \<and> is_not_found cfg st now k) [0..<length ids]"
proof (induction ids rule: rev_induct)
  case Nil
  then show ?case by (simp add: init_string_def group_rows_Nil)
next
  case (snoc x xs)
  have f: "filter (\<lambda>r. (xs @ [x]) ! r = k \<and> is_not_found cfg st now k) [0..<length xs]
         = filter (\<lambda>r. xs ! r = k \<and> is_not_found cfg st now k) [0..<length xs]"
    by (rule filter_cong) (auto simp: nth_append)
  show ?case
    using snoc class_exclusive[of cfg st now x]
    by (auto simp add: string_loop_snoc string_body_cases insert_value_routine_eq
        group_rows_push_back_row f)
qed

lemma string_loop_expired_keys:
  "set (map fst (cache_expired_ids (string_classify_loop cfg st a gd now 0 ids (init_string col))))
     = {k \<in> set ids. is_expired cfg st now k}
   \<and> distinct (map fst (cache_expired_ids (string_classify_loop cfg st a gd now 0 ids (init_string col))))"
proof (induction ids rule: rev_induct)
  case Nil
  then show ?case by (simp add: init_string_def)
next
  case (snoc x xs)
  then show ?case
    using class_exclusive[of cfg st now x]
    by (auto simp add: string_loop_snoc string_body_cases insert_value_routine_eq
        set_keys_push_back_row distinct_keys_push_back_row)
qed

lemma string_loop_not_found_keys:
  "set (map fst (cache_not_found_ids (string_classify_loop cfg st a gd now 0 ids (init_string col))))
     = {k \<in> set ids. is_not_found cfg st now k}
   \<and> distinct (map fst (cache_not_found_ids (string_classify_loop cfg st a gd now 0 ids (init_string col))))"
proof (induction ids rule: rev_induct)
  case Nil
  then show ?case by (simp add: init_string_def)
next
  case (snoc x xs)
  then show ?case
    using class_exclusive[of cfg st now x]
    by (auto simp add: string_loop_snoc string_body_cases insert_value_routine_eq
        set_keys_push_back_row distinct_keys_push_back_row)
qed

lemma string_loop_hits_out:
  "cache_hit (string_classify_loop cfg st a gd now 0 ids (init_string col))
     = length (filter (is_hit cfg st now) ids)
   \<and> out (string_classify_loop cfg st a gd now 0 ids (init_string col)) = col"
proof (induction ids rule: rev_induct)
  case Nil
  then show ?case by (simp add: init_string_def)
next
  case (snoc x xs)
  then show ?case
    by (auto simp add: string_loop_snoc string_body_cases insert_value_routine_eq)
qed

lemma string_loop_map:
  "map_s (string_classify_loop cfg st a gd now 0 ids (init_string col)) k =
     (if k \<in> set ids \<and> (is_hit cfg st now k \<or> is_expired cfg st now k \<and> allow_read_expired_keys cfg)
         \<and> \<not> is_default (cells st ! getCellIdx cfg st k)
      then Some (arrays (attributes st ! a) ! getCellIdx cfg st k) else None)"
proof (induction ids rule: rev_induct)
  case Nil
  then show ?case by (simp add: init_string_def)
next
  case (snoc x xs)
  then show ?case
    using class_exclusive[of cfg st now x]
    by (auto simp add: string_loop_snoc string_body_cases insert_value_routine_eq)
qed

lemma keys_Nil_iff: "m = [] \<longleftrightarrow> set (map fst m) = {}"
  by simp

lemma number_groups_empty:
  "cache_expired_ids (number_classify_loop cfg st a sc gd now 0 ids (init_number out0)) = []
     \<longleftrightarrow> (\<forall>k \<in> set ids. \<not> is_expired cfg st now k)"
  "cache_not_found_ids (number_classify_loop cfg st a sc gd now 0 ids (init_number out0)) = []
     \<longleftrightarrow> (\<forall>k \<in> set ids. \<not> is_not_found cfg st now k)"
  using number_loop_expired_keys [of cfg st a sc gd now ids out0]
    number_loop_not_found_keys [of cfg st a sc gd now ids out0]
  by (auto simp add: keys_Nil_iff [of "cache_expired_ids _"] keys_Nil_iff [of "cache_not_found_ids _"]
      simp del: set_map)

lemma string_groups_empty:
  "cache_expired_ids (string_classify_loop cfg st a gd now 0 ids (init_string col)) = []
     \<longleftrightarrow> (\<forall>k \<in> set ids. \<not> is_expired cfg st now k)"
  "cache_not_found_ids (string_classify_loop cfg st a gd now 0 ids (init_string col)) = []
     \<longleftrightarrow> (\<forall>k \<in> set ids. \<not> is_not_found cfg st now k)"
  using string_loop_expired_keys [of cfg st a gd now ids col]
    string_loop_not_found_keys [of cfg st a gd now ids col]
  by (auto simp add: keys_Nil_iff [of "cache_expired_ids _"] keys_Nil_iff [of "cache_not_found_ids _"]
      simp del: set_map)



lemma getItemsNumberImpl_unfold:
  "getItemsNumberImpl cfg a sc ids out0 gd now worker now' st =
     (let acc = number_classify_loop cfg st a sc gd now 0 ids (init_number out0);
          st1 = st\<lparr>query_count := query_count st + of_nat (length ids),
                   hit_count := hit_count st + (of_nat (length ids) - of_nat (length (cache_expired_ids acc))
                                                - of_nat (length (cache_not_found_ids acc)))\<rparr>
      in if (\<forall>k \<in> set ids. is_hit cfg st now k) then Inr (st1, out acc)
         else if (\<forall>k \<in> set ids. \<not> is_not_found cfg st now k) \<and> allow_read_expired_keys cfg then
           (case tryPushToUpdateQueueOrThrow cfg (UpdateUnit (group_keys cfg (cache_expired_ids acc))) st1 of
              Inl e \<Rightarrow> Inl e
            | Inr st2 \<Rightarrow> Inr (st2, out acc))
         else
           (case tryPushToUpdateQueueOrThrow cfg
                   (UpdateUnit (group_keys cfg (cache_not_found_ids acc) @ group_keys cfg (cache_expired_ids acc))) st1 of
                 Inl e \<Rightarrow> Inl e
               | Inr st2 \<Rightarrow>
                   (case waitForCurrentUpdateFinish worker
                           (UpdateUnit (group_keys cfg (cache_not_found_ids acc) @ group_keys cfg (cache_expired_ids acc))) st2 of
                      (u', st3) \<Rightarrow>
                        (case prepareAnswer cfg u' (number_on_cell_updated a sc)
                                (number_on_id_not_found gd) now' st3 acc of
                           Inl e \<Rightarrow> Inl e
                         | Inr (st4, acc') \<Rightarrow> Inr (st4, out acc')))))"
proof -
  have h: "(\<forall>k \<in> set ids. \<not> is_not_found cfg st now k) \<and> (\<forall>k \<in> set ids. \<not> is_expired cfg st now k)
       \<longleftrightarrow> (\<forall>k \<in> set ids. is_hit cfg st now k)"
    using class_exclusive [of cfg st now] by blast
  show ?thesis
    unfolding getItemsNumberImpl_def init_number_def [symmetric] Let_def number_groups_empty h
    by simp
qed

lemmas lookup_defs = getItemsNumberImpl_def number_classify_body_def update_routine_def isDefault_def
  tryPushToUpdateQueueOrThrow_def waitForCurrentUpdateFinish_def UpdateUnit_def ex_worker_def
  init_number_def

lemma optimistic_flag:
  "fst (string_optimistic_loop cfg st a gd now row ids col) \<longleftrightarrow> (\<exists>k \<in> set ids. \<not> is_hit cfg st now k)"
  by (induction ids arbitrary: row col) (auto simp: is_hit_def Let_def)

lemma getItemsString_fallback:
  assumes "\<exists>k \<in> set ids. \<not> is_hit cfg st now0 k"
  shows "getItemsString cfg a ids col0 gd now0 now worker now' st =
           getItemsString_pessimistic cfg a ids empty_column gd now worker now' st"
proof -
  obtain b col1 where r: "string_optimistic_loop cfg st a gd now0 0 ids col0 = (b, col1)"
    by (cases "string_optimistic_loop cfg st a gd now0 0 ids col0")
  then have "b" using optimistic_flag [of cfg st a gd now0 0 ids col0] assms by simp
  moreover have "col1\<lparr>chars := [], offsets := []\<rparr> = empty_column"
    by (simp add: empty_column_def)
  ultimately show ?thesis by (simp add: getItemsString_def r)
qed

lemma getItemsString_pessimistic_full_queue:
  assumes "max_update_queue_size cfg \<le> length (update_queue st)"
    and "(\<exists>k \<in> set ids. is_not_found cfg st now k)
         \<or> allow_read_expired_keys cfg \<and> (\<exists>k \<in> set ids. is_expired cfg st now k)"
  shows "getItemsString_pessimistic cfg a ids col gd now worker now' st = Inl QueueFullError"
proof -
  have e: "cache_expired_ids (string_classify_loop cfg st a gd now 0 ids (init_string col)) = []
     \<longleftrightarrow> (\<forall>k \<in> set ids. \<not> is_expired cfg st now k)"
    and n: "cache_not_found_ids (string_classify_loop cfg st a gd now 0 ids (init_string col)) = []
     \<longleftrightarrow> (\<forall>k \<in> set ids. \<not> is_not_found cfg st now k)"
    by (rule string_groups_empty)+
  show ?thesis
    using assms
    unfolding getItemsString_pessimistic_def init_string_def [symmetric] Let_def e n
    by (auto simp add: tryPushToUpdateQueueOrThrow_def)
qed

lemma append_rows_simps:
  "append_rows col [] = col"
  "append_rows col (v # vs) = append_rows (insertData v col) vs"
  by (simp_all add: append_rows_def)


lemma string_emit_loop_rows:
  "string_emit_loop m gd row ids col =
     append_rows col (map (\<lambda>i. case m (ids ! i) of Some s \<Rightarrow> s | None \<Rightarrow> gd (row + i)) [0..<length ids])"
proof (induction ids arbitrary: row col)
  case Nil
  then show ?case by (simp add: append_rows_simps)
next
  case (Cons k ks)
  show ?case
    by (simp add: Cons.IH map_upt_Suc append_rows_simps del: upt_Suc cong: option.case_cong)
qed

lemma optimistic_all_hit:
  assumes "\<forall>k \<in> set ids. is_hit cfg st now k"
    and "\<forall>k \<in> set ids. m k = (if is_default (cells st ! getCellIdx cfg st k) then None
                                  else Some (arrays (attributes st ! a) ! getCellIdx cfg st k))"
  shows "string_optimistic_loop cfg st a gd now row ids col = (False, string_emit_loop m gd row ids col)"
  using assms
  by (induction ids arbitrary: row col) (auto simp: is_hit_def Let_def isDefault_def)

lemma optimistic_all_hit_rows:
  assumes "\<forall>k \<in> set ids. is_hit cfg st now k"
  shows "string_optimistic_loop cfg st a gd now 0 ids col =
     (False, append_rows col (map (\<lambda>r. cached_value cfg st a id gd r (ids ! r)) [0..<length ids]))"
proof -
  let ?m = "\<lambda>k. if is_default (cells st ! getCellIdx cfg st k) then None
                 else Some (arrays (attributes st ! a) ! getCellIdx cfg st k)"
  have "string_optimistic_loop cfg st a gd now 0 ids col = (False, string_emit_loop ?m gd 0 ids col)"
    using assms by (intro optimistic_all_hit) simp_all
  moreover have "map (\<lambda>i. case ?m (ids ! i) of Some s \<Rightarrow> s | None \<Rightarrow> gd (0 + i)) [0..<length ids]
      = map (\<lambda>r. cached_value cfg st a id gd r (ids ! r)) [0..<length ids]"
    by (simp add: cached_value_def)
  ultimately show ?thesis by (simp add: string_emit_loop_rows)
qed

lemma pessimistic_all_hit:
  assumes "\<forall>k \<in> set ids. is_hit cfg st now k"
  shows "getItemsString_pessimistic cfg a ids col gd now worker now' st =
     Inr (st\<lparr>query_count := query_count st + of_nat (length ids),
             hit_count := hit_count st + of_nat (length ids)\<rparr>,
          snd (string_optimistic_loop cfg st a gd now 0 ids col))"
proof -
  let ?acc = "string_classify_loop cfg st a gd now 0 ids (init_string col)"
  have e: "cache_expired_ids ?acc = []" and n: "cache_not_found_ids ?acc = []"
    using assms class_exclusive [of cfg st now] by (auto simp: string_groups_empty)
  have o: "out ?acc = col" by (simp add: string_loop_hits_out)
  have m: "\<forall>k \<in> set ids. map_s ?acc k = (if is_default (cells st ! getCellIdx cfg st k) then None
                                  else Some (arrays (attributes st ! a) ! getCellIdx cfg st k))"
    using assms by (simp add: string_loop_map)
  have "string_optimistic_loop cfg st a gd now 0 ids col = (False, string_emit_loop (map_s ?acc) gd 0 ids col)"
    using assms m by (rule optimistic_all_hit)
  then show ?thesis
    unfolding getItemsString_pessimistic_def init_string_def [symmetric] Let_def
    by (simp add: e n o)
qed






lemma getItemsString_as_pessimistic:
  "getItemsString cfg a ids empty_column gd now0 now worker now' st =
     getItemsString_pessimistic cfg a ids empty_column gd
       (if \<forall>k \<in> set ids. is_hit cfg st now0 k then now0 else now) worker now' st"
proof (cases "\<forall>k \<in> set ids. is_hit cfg st now0 k")
  case True
  then show ?thesis
    using optimistic_all_hit_rows [OF True, of a gd empty_column]
      pessimistic_all_hit [OF True, of a empty_column gd worker now']
    by (simp add: getItemsString_def)
next
  case False
  then have "\<exists>k \<in> set ids. \<not> is_hit cfg st now0 k" by simp
  from getItemsString_fallback [OF this] False show ?thesis by auto
qed

lemmas string_lookup_defs = getItemsString_def getItemsString_pessimistic_def string_classify_body_def
  insert_value_routine_def string_on_cell_updated_def string_on_id_not_found_def insertData_def
  empty_column_def isDefault_def tryPushToUpdateQueueOrThrow_def waitForCurrentUpdateFinish_def
  UpdateUnit_def ex_worker_def ex_default_s_def











lemma answer_payload_lock [simp]:
  "answer_payload cfg (st\<lparr>rw_lock := m\<rparr>) a found req k = answer_payload cfg st a found req k"
  by (simp add: answer_payload_def getCellIdx_def cong: if_cong)






section \<open>The classify pass\<close>

text \<open>
  C1, as the code has it. Both classify passes go through the ids in input order (the pass
  over \<open>ids @ [k]\<close> is the pass over \<open>ids\<close> followed by the body for \<open>k\<close> at row
  \<open>length ids\<close>), with one \<^verbatim>\<open>findCellIdx\<close> per id, and group the rows alike: the rows of an
  outdated key are recorded under the key in the expired map, the rows of a key that is
  neither valid nor outdated in the not-found map, in ascending order. In the numeric
  lookup the row of a valid key, and the row of an outdated key when stale reads are
  allowed, is written at once with the cached value, or with the row's default when the
  cell is marked default; the other rows are untouched. In the string lookup the pass
  writes nothing to the output column: the cached value is stored under the key in the
  string map, and only when the cell is not marked default.
\<close>

theorem classify_pass_groups_and_values:
  "(number_classify_loop cfg st a static_cast get_default now 0 (ids @ [k]) (init_number out0) =
      number_classify_body cfg st a static_cast get_default now (length ids) k
        (number_classify_loop cfg st a static_cast get_default now 0 ids (init_number out0)))
   \<and> (let acc = number_classify_loop cfg st a static_cast get_default now 0 ids (init_number out0) in
        (\<forall>k. group_rows (cache_expired_ids acc) k =
               filter (\<lambda>r. ids ! r = k \<and> is_expired cfg st now k) [0..<length ids])
      \<and> (\<forall>k. group_rows (cache_not_found_ids acc) k =
               filter (\<lambda>r. ids ! r = k \<and> is_not_found cfg st now k) [0..<length ids])
      \<and> cache_hit acc = length (filter (is_hit cfg st now) ids)
      \<and> length (out acc) = length out0
      \<and> (\<forall>r < length out0. out acc ! r =
            (if r < length ids \<and> (is_hit cfg st now (ids ! r)
                  \<or> is_expired cfg st now (ids ! r) \<and> allow_read_expired_keys cfg)
             then cached_value cfg st a static_cast get_default r (ids ! r) else out0 ! r)))
   \<and> (string_classify_loop cfg st_s a get_default_s now 0 (ids @ [k]) (init_string col) =
      string_classify_body cfg st_s a get_default_s now (length ids) k
        (string_classify_loop cfg st_s a get_default_s now 0 ids (init_string col)))
   \<and> (let acc = string_classify_loop cfg st_s a get_default_s now 0 ids (init_string col) in
        (\<forall>k. group_rows (cache_expired_ids acc) k =
               filter (\<lambda>r. ids ! r = k \<and> is_expired cfg st_s now k) [0..<length ids])
      \<and> (\<forall>k. group_rows (cache_not_found_ids acc) k =
               filter (\<lambda>r. ids ! r = k \<and> is_not_found cfg st_s now k) [0..<length ids])
      \<and> cache_hit acc = length (filter (is_hit cfg st_s now) ids)
      \<and> out acc = col
      \<and> (\<forall>k. map_s acc k =
            (if k \<in> set ids \<and> (is_hit cfg st_s now k
                  \<or> is_expired cfg st_s now k \<and> allow_read_expired_keys cfg)
                \<and> \<not> is_default (cells st_s ! getCellIdx cfg st_s k)
             then Some (arrays (attributes st_s ! a) ! getCellIdx cfg st_s k) else None)))"
  unfolding Let_def
proof (intro conjI allI impI)
  show "number_classify_loop cfg st a static_cast get_default now 0 (ids @ [k]) (init_number out0) =
      number_classify_body cfg st a static_cast get_default now (length ids) k
        (number_classify_loop cfg st a static_cast get_default now 0 ids (init_number out0))"
    by (simp add: number_loop_snoc)
  show "string_classify_loop cfg st_s a get_default_s now 0 (ids @ [k]) (init_string col) =
      string_classify_body cfg st_s a get_default_s now (length ids) k
        (string_classify_loop cfg st_s a get_default_s now 0 ids (init_string col))"
    by (simp add: string_loop_snoc)
qed (simp_all add: number_loop_expired number_loop_not_found number_loop_hits number_loop_out_length
      number_loop_out string_loop_expired string_loop_not_found string_loop_hits_out string_loop_map)

text \<open>
  The theorem at the example of the ids 7, 5, 7 at time 100: key 5 is outdated, key 7 is not
  in the table, and stale reads are allowed.
\<close>

theorem classify_pass_groups_and_values_witness:
  "(let acc = number_classify_loop ex_cfg ex_num 0 id ex_default 100 0 [7, 5, 7] (init_number [0, 0, 0]) in
      group_rows (cache_expired_ids acc) 5 = [1]
    \<and> group_rows (cache_not_found_ids acc) 7 = [0, 2]
    \<and> out acc ! 1 = 55 \<and> out acc ! 0 = 0)
   \<and> (let acc = string_classify_loop ex_cfg ex_str 0 ex_default_s 100 0 [7, 5, 7] (init_string empty_column) in
      group_rows (cache_expired_ids acc) 5 = [1]
    \<and> group_rows (cache_not_found_ids acc) 7 = [0, 2]
    \<and> map_s acc 5 = Some ''five'' \<and> map_s acc 7 = None)"
proof -
  have c: "is_expired ex_cfg ex_num 100 5" "is_not_found ex_cfg ex_num 100 7"
    "\<not> is_hit ex_cfg ex_num 100 7" "\<not> is_expired ex_cfg ex_num 100 7"
    "is_expired ex_cfg ex_str 100 5" "is_not_found ex_cfg ex_str 100 7"
    "\<not> is_hit ex_cfg ex_str 100 7" "\<not> is_expired ex_cfg ex_str 100 7"
    "cached_value ex_cfg ex_num 0 id ex_default 1 5 = 55"
    "\<not> is_default (cells ex_str ! getCellIdx ex_cfg ex_str 5)"
    "arrays (attributes ex_str ! 0) ! getCellIdx ex_cfg ex_str 5 = ''five''"
    "allow_read_expired_keys ex_cfg"
    by (simp_all add: is_hit_def is_expired_def is_not_found_def cached_value_def findCellIdx_def
        getCellIdx_def ex_defs)
  have u: "[0..<3] = [0, 1, 2]" by (simp add: upt_rec)
  show ?thesis
    using classify_pass_groups_and_values [of ex_cfg ex_num 0 id ex_default 100 "[7, 5, 7]" 7
        "[0, 0, 0]" ex_str ex_default_s empty_column]
    unfolding Let_def using c by (simp add: u)
qed

text \<open>
  C1 as the spec words it fails for the string lookup: key 5 is a valid hit at time 10, and
  after the classify pass the output column is still empty; the value is in the string map.
\<close>

theorem string_classify_pass_keeps_column_empty:
  "is_hit ex_cfg ex_str 10 5
   \<and> string_classify_loop ex_cfg ex_str 0 ex_default_s 10 0 [5] (init_string empty_column) =
       \<lparr>cache_expired_ids = [], cache_not_found_ids = [], cache_hit = 1, out = empty_column,
        map_s = [5 \<mapsto> ''five''], total_length = 5\<rparr>"
  by (simp add: is_hit_def findCellIdx_def getCellIdx_def ex_defs string_classify_body_def
      insert_value_routine_def isDefault_def init_string_def Let_def)

section \<open>One value per row, resolved per key\<close>




section \<open>The synchronous update that the string lookup leaves out\<close>

text \<open>
  C3 asks for the synchronous update (push the unit, wait for its completion, prepare the
  answer) whenever a key is absent or stale reads are not allowed. With stale reads off
  and the single id 5, outdated at time 100, \<^verbatim>\<open>getItemsString\<close> pushes no unit and does not
  wait: the queue and the cells are as before, the worker that would store the string
  \<^verbatim>\<open>new\<close> for key 5 has not run, and the row holds the default of row 0. On the same
  batch \<^verbatim>\<open>getItemsNumberImpl\<close> pushes the unit of key 5, waits, and returns the payload 56
  that the update stored.
\<close>

theorem string_lookup_skips_sync_fetch:
  "is_expired (ex_cfg\<lparr>allow_read_expired_keys := False\<rparr>) ex_str 100 5
   \<and> getItemsString (ex_cfg\<lparr>allow_read_expired_keys := False\<rparr>) 0 [5] empty_column ex_default_s 100 100
       (ex_fetch ''new'') 100 ex_str =
     Inr (ex_str\<lparr>query_count := 1\<rparr>, \<lparr>chars = ''d0'' @ [CHR 0x00], offsets = [3]\<rparr>)
   \<and> getItemsNumberImpl (ex_cfg\<lparr>allow_read_expired_keys := False\<rparr>) 0 id [5] [0] ex_default 100
       (ex_fetch 56) 100 ex_num =
     Inr (ex_num\<lparr>cells := [\<lparr>cell_id = 0, expires_at = 0, is_default = False\<rparr>,
                            \<lparr>cell_id = 5, expires_at = 200, is_default = False\<rparr>],
                 attributes := [\<lparr>null_value = 0, arrays = [40, 56]\<rparr>, \<lparr>null_value = 9, arrays = [1, 2]\<rparr>],
                 query_count := 1\<rparr>,
          [56])"
  by (simp add: ev_defs lookup_defs string_lookup_defs ex_fetch_def is_expired_def)

section \<open>A full update queue\<close>

text \<open>
  C4, as the code has it. No call of \<^verbatim>\<open>tryPushToUpdateQueueOrThrow\<close> is inside a
  \<^verbatim>\<open>try\<close> block. When the update queue is at capacity, every lookup that pushes a unit
  fails with \<open>QueueFullError\<close>: the numeric lookup whenever some id is not a valid hit, on
  the synchronous and on the asynchronous path alike, and the string lookup whenever it
  falls back to its grouped pass and some id is absent, or some id is outdated and stale
  reads are allowed.
\<close>

theorem full_queue_fails_every_update:
  "(max_update_queue_size cfg \<le> length (update_queue st) \<and> (\<exists>k \<in> set ids. \<not> is_hit cfg st now k) \<longrightarrow>
      getItemsNumberImpl cfg a static_cast ids out0 get_default now worker now' st = Inl QueueFullError)
   \<and> (max_update_queue_size cfg \<le> length (update_queue st_s)
        \<and> (\<exists>k \<in> set ids. \<not> is_hit cfg st_s now0 k)
        \<and> ((\<exists>k \<in> set ids. is_not_found cfg st_s now k)
            \<or> allow_read_expired_keys cfg \<and> (\<exists>k \<in> set ids. is_expired cfg st_s now k)) \<longrightarrow>
      getItemsString cfg a ids col0 get_default_s now0 now worker_s now' st_s = Inl QueueFullError)"
proof (intro conjI impI)
  assume "max_update_queue_size cfg \<le> length (update_queue st) \<and> (\<exists>k \<in> set ids. \<not> is_hit cfg st now k)"
  then show "getItemsNumberImpl cfg a static_cast ids out0 get_default now worker now' st = Inl QueueFullError"
    by (auto simp add: getItemsNumberImpl_unfold Let_def tryPushToUpdateQueueOrThrow_def)
next
  assume h: "max_update_queue_size cfg \<le> length (update_queue st_s)
        \<and> (\<exists>k \<in> set ids. \<not> is_hit cfg st_s now0 k)
        \<and> ((\<exists>k \<in> set ids. is_not_found cfg st_s now k)
            \<or> allow_read_expired_keys cfg \<and> (\<exists>k \<in> set ids. is_expired cfg st_s now k))"
  then have "getItemsString cfg a ids col0 get_default_s now0 now worker_s now' st_s =
           getItemsString_pessimistic cfg a ids empty_column get_default_s now worker_s now' st_s"
    by (simp add: getItemsString_fallback)
  also have "\<dots> = Inl QueueFullError"
    using h by (intro getItemsString_pessimistic_full_queue) simp_all
  finally show "getItemsString cfg a ids col0 get_default_s now0 now worker_s now' st_s = Inl QueueFullError" .
qed

text \<open>
  The theorem at the examples, with a queue of capacity 0: the numeric lookup of the ids
  4, 5, 4 and the string lookup of the outdated id 5.
\<close>

theorem full_queue_fails_every_update_witness:
  "getItemsNumberImpl (ex_cfg\<lparr>max_update_queue_size := 0\<rparr>) 0 id [4, 5, 4] [0, 0, 0] ex_default 100
      (ex_worker [5]) 100 ex_num = Inl QueueFullError
   \<and> getItemsString (ex_cfg\<lparr>max_update_queue_size := 0\<rparr>) 0 [5] empty_column ex_default_s 100 100
      (ex_worker [5]) 100 ex_str = Inl QueueFullError"
proof -
  have c: "\<not> is_hit (ex_cfg\<lparr>max_update_queue_size := 0\<rparr>) ex_num 100 5"
    "\<not> is_hit (ex_cfg\<lparr>max_update_queue_size := 0\<rparr>) ex_str 100 5"
    "is_expired (ex_cfg\<lparr>max_update_queue_size := 0\<rparr>) ex_str 100 5"
    "allow_read_expired_keys (ex_cfg\<lparr>max_update_queue_size := 0\<rparr>)"
    "max_update_queue_size (ex_cfg\<lparr>max_update_queue_size := 0\<rparr>) = 0"
    by (simp_all add: is_hit_def is_expired_def findCellIdx_def getCellIdx_def ex_defs)
  show ?thesis
    using full_queue_fails_every_update [of "ex_cfg\<lparr>max_update_queue_size := 0\<rparr>" ex_num "[4, 5, 4]"
        100 0 id "[0, 0, 0]" ex_default "ex_worker [5]" 100]
      full_queue_fails_every_update [of "ex_cfg\<lparr>max_update_queue_size := 0\<rparr>" ex_num "[5]"
        100 0 id "[0]" ex_default "ex_worker [5]" 100 ex_str 100 empty_column ex_default_s "ex_worker [5]"]
      c
    by simp
qed

text \<open>
  C4 as the spec words it fails on the asynchronous path: stale reads are allowed, the only
  id 5 is outdated, the queue is full, and both lookups end with \<open>QueueFullError\<close> instead
  of the stale value.
\<close>

theorem full_queue_fails_stale_read:
  "allow_read_expired_keys (ex_cfg\<lparr>max_update_queue_size := 0\<rparr>)
   \<and> is_expired (ex_cfg\<lparr>max_update_queue_size := 0\<rparr>) ex_num 100 5
   \<and> getItemsNumberImpl (ex_cfg\<lparr>max_update_queue_size := 0\<rparr>) 0 id [5] [0] ex_default 100
        (ex_worker []) 100 ex_num = Inl QueueFullError
   \<and> getItemsString (ex_cfg\<lparr>max_update_queue_size := 0\<rparr>) 0 [5] empty_column ex_default_s 100 100
        (ex_worker []) 100 ex_str = Inl QueueFullError"
  by (simp add: ev_defs lookup_defs is_expired_def getItemsString_def getItemsString_pessimistic_def
      string_classify_body_def insert_value_routine_def empty_column_def)

section \<open>The expiry that the answer-preparation step assigns\<close>

text \<open>
  C5, as the code has it. When \<^verbatim>\<open>prepareAnswer\<close> takes over the cell of a requested key
  whose found mask is false, the cell's expiry is the max sentinel if and only if at least
  one of \<open>min_sec\<close> and \<open>max_sec\<close> is zero (the guard of the source is
  \<^verbatim>\<open>min_sec != 0 && max_sec != 0\<close>); otherwise it is \<open>now\<close> plus the number of seconds
  that the distribution over \<open>min_sec\<close> to \<open>max_sec\<close> draws from the engine, and that number
  lies between the two bounds when \<open>min_sec \<le> max_sec\<close>.
\<close>

theorem expiry_assigned_from_lifetime:
  assumes "found_ids_mask u k = Some False" and "cells st \<noteq> []"
  shows "\<exists>st' c'. prepareAnswer_body cfg u f g now k (st, c) = Inr (st', c') \<and>
     expires_at (cells st' ! getCellIdx cfg st k) =
       (if min_sec cfg = 0 \<or> max_sec cfg = 0 then time_point_max
        else now + int (uniform_int_distribution (min_sec cfg) (max_sec cfg)
                          (fst (rnd_gen cfg (rnd_engine st))))) \<and>
     (min_sec cfg \<le> max_sec cfg \<longrightarrow>
        min_sec cfg \<le> uniform_int_distribution (min_sec cfg) (max_sec cfg) (fst (rnd_gen cfg (rnd_engine st)))
        \<and> uniform_int_distribution (min_sec cfg) (max_sec cfg) (fst (rnd_gen cfg (rnd_engine st)))
            \<le> max_sec cfg)"
proof -
  have lt: "getCellIdx cfg st k < length (cells st)" using assms(2) by (rule getCellIdx_less)
  from body_not_found [OF assms(1) lt, of f g now c] obtain st' where
    r: "prepareAnswer_body cfg u f g now k (st, c) = Inr (st', g k (getCellIdx cfg st k) c)"
    and cs: "cells st' = (cells st)[getCellIdx cfg st k := (cells st ! getCellIdx cfg st k)\<lparr>cell_id := k,
             expires_at := ttl_expiry cfg now (rnd_engine st), is_default := True\<rparr>]"
    by auto
  have "expires_at (cells st' ! getCellIdx cfg st k) = ttl_expiry cfg now (rnd_engine st)"
    using lt by (simp add: cs)
  then show ?thesis
    using r uniform_int_distribution_range by (auto simp: ttl_expiry_def)
qed

text \<open>
  The theorem at the example: key 7 is not found at time 100, the engine yields 3, and the
  lifetime 10 to 20 gives the expiry 100 + 13.
\<close>

theorem expiry_assigned_from_lifetime_witness:
  "\<exists>st' c'. prepareAnswer_body ex_cfg (ex_unit [7] []) (number_on_cell_updated 0 id)
       (number_on_id_not_found ex_default) 100 7 (ex_num, ex_locals) = Inr (st', c') \<and>
     expires_at (cells st' ! getCellIdx ex_cfg ex_num 7) = 113"
  using expiry_assigned_from_lifetime [of "ex_unit [7] []" 7 ex_num ex_cfg
      "number_on_cell_updated 0 id" "number_on_id_not_found ex_default" 100 ex_locals]
  by (simp add: ex_defs uniform_int_distribution_def)

text \<open>
  C5 as the spec words it fails: with the bounds 0 and 10 (not both zero) the cell of key 7
  gets the max sentinel, which is none of the times 100 to 110.
\<close>

theorem sentinel_with_one_zero_bound:
  "min_sec (ex_cfg\<lparr>min_sec := 0, max_sec := 10\<rparr>) = 0 \<and> max_sec (ex_cfg\<lparr>min_sec := 0, max_sec := 10\<rparr>) = 10
   \<and> 100 + 10 < time_point_max
   \<and> prepareAnswer (ex_cfg\<lparr>min_sec := 0, max_sec := 10\<rparr>) (ex_unit [7] []) (number_on_cell_updated 0 id)
       (number_on_id_not_found ex_default) 100 ex_num ex_locals =
     Inr (ex_num\<lparr>cells := [\<lparr>cell_id = 0, expires_at = 0, is_default = False\<rparr>,
                            \<lparr>cell_id = 7, expires_at = time_point_max, is_default = True\<rparr>],
                 attributes := [\<lparr>null_value = 0, arrays = [40, 0]\<rparr>, \<lparr>null_value = 9, arrays = [1, 9]\<rparr>],
                 cell_writes := [(1, ReadLocked), (1, ReadLocked), (1, ReadLocked)]\<rparr>,
          ex_locals\<lparr>out := [1000, 0, 1002]\<rparr>)"
  by (simp add: ev_defs) (simp add: time_point_max_def)

section \<open>The optimistic pass of the string lookup\<close>

text \<open>
  C6. Started on the empty column, \<^verbatim>\<open>getItemsString\<close> returns what its grouped part returns
  on the empty column (at the clock of the pass that decided the batch). When some id is
  not a valid hit, whatever column the call started with, the pass is left, the column is
  emptied, and the result is that of the grouped part. When every id is a valid hit, the
  result is the column that the optimistic pass streamed, one cached value (or row default)
  per row appended to the starting column, with both counters raised by the number of
  rows; no grouping map takes part in it.
\<close>

theorem optimistic_pass_refines_grouped_algorithm:
  "getItemsString cfg a ids empty_column get_default now0 now worker now' st =
     getItemsString_pessimistic cfg a ids empty_column get_default
       (if \<forall>k \<in> set ids. is_hit cfg st now0 k then now0 else now) worker now' st
   \<and> ((\<exists>k \<in> set ids. \<not> is_hit cfg st now0 k) \<longrightarrow>
        getItemsString cfg a ids col0 get_default now0 now worker now' st =
          getItemsString_pessimistic cfg a ids empty_column get_default now worker now' st)
   \<and> ((\<forall>k \<in> set ids. is_hit cfg st now0 k) \<longrightarrow>
        getItemsString cfg a ids col0 get_default now0 now worker now' st =
          Inr (st\<lparr>query_count := query_count st + of_nat (length ids),
                  hit_count := hit_count st + of_nat (length ids)\<rparr>,
               snd (string_optimistic_loop cfg st a get_default now0 0 ids col0))
        \<and> string_optimistic_loop cfg st a get_default now0 0 ids col0 =
            (False, append_rows col0
                      (map (\<lambda>r. cached_value cfg st a id get_default r (ids ! r)) [0..<length ids])))"
proof -
  have fb: "(\<exists>k \<in> set ids. \<not> is_hit cfg st now0 k) \<Longrightarrow>
        getItemsString cfg a ids col0 get_default now0 now worker now' st =
          getItemsString_pessimistic cfg a ids empty_column get_default now worker now' st"
    by (rule getItemsString_fallback)
  have ah: "getItemsString cfg a ids col0 get_default now0 now worker now' st =
          Inr (st\<lparr>query_count := query_count st + of_nat (length ids),
                  hit_count := hit_count st + of_nat (length ids)\<rparr>,
               snd (string_optimistic_loop cfg st a get_default now0 0 ids col0))
        \<and> string_optimistic_loop cfg st a get_default now0 0 ids col0 =
            (False, append_rows col0
                      (map (\<lambda>r. cached_value cfg st a id get_default r (ids ! r)) [0..<length ids]))"
    if "\<forall>k \<in> set ids. is_hit cfg st now0 k"
    using optimistic_all_hit_rows [OF that, of a get_default col0]
    by (simp add: getItemsString_def)
  show ?thesis
    using getItemsString_as_pessimistic [of cfg a ids get_default now0 now worker now' st] fb ah
    by blast
qed

text \<open>
  The theorem at the examples: the ids 5, 5 are valid hits at time 10 and are streamed; the
  ids 5, 4 with the absent key 4 fall back, and the old content of the column is dropped.
\<close>

theorem optimistic_pass_refines_grouped_algorithm_witness:
  "getItemsString ex_cfg 0 [5, 5] empty_column ex_default_s 10 100 (ex_worker []) 100 ex_str =
     getItemsString_pessimistic ex_cfg 0 [5, 5] empty_column ex_default_s 10 (ex_worker []) 100 ex_str
   \<and> getItemsString ex_cfg 0 [5, 5] empty_column ex_default_s 10 100 (ex_worker []) 100 ex_str =
       Inr (ex_str\<lparr>query_count := 2, hit_count := 2\<rparr>,
            \<lparr>chars = ''five'' @ [CHR 0x00] @ ''five'' @ [CHR 0x00], offsets = [5, 10]\<rparr>)
   \<and> getItemsString ex_cfg 0 [5, 4] \<lparr>chars = ''old'' @ [CHR 0x00], offsets = [4]\<rparr> ex_default_s 10 100
         (ex_worker []) 100 ex_str =
       getItemsString_pessimistic ex_cfg 0 [5, 4] empty_column ex_default_s 100 (ex_worker []) 100 ex_str"
proof -
  have c: "\<forall>k \<in> set [5, 5]. is_hit ex_cfg ex_str 10 k" "\<exists>k \<in> set [5, 4]. \<not> is_hit ex_cfg ex_str 10 k"
    by (simp_all add: is_hit_def findCellIdx_def getCellIdx_def ex_defs)
  note t1 = optimistic_pass_refines_grouped_algorithm [of ex_cfg 0 "[5, 5]" ex_default_s 10 100
        "ex_worker []" 100 ex_str empty_column]
  note t2 = optimistic_pass_refines_grouped_algorithm [of ex_cfg 0 "[5, 4]" ex_default_s 10 100
        "ex_worker []" 100 ex_str "\<lparr>chars = ''old'' @ [CHR 0x00], offsets = [4]\<rparr>"]
  have a: "getItemsString ex_cfg 0 [5, 5] empty_column ex_default_s 10 100 (ex_worker []) 100 ex_str =
     getItemsString_pessimistic ex_cfg 0 [5, 5] empty_column ex_default_s 10 (ex_worker []) 100 ex_str"
    using t1 c(1) by simp
  have "getItemsString ex_cfg 0 [5, 5] empty_column ex_default_s 10 100 (ex_worker []) 100 ex_str =
       Inr (ex_str\<lparr>query_count := query_count ex_str + of_nat (length [5, 5 :: key]),
                     hit_count := hit_count ex_str + of_nat (length [5, 5 :: key])\<rparr>,
            snd (string_optimistic_loop ex_cfg ex_str 0 ex_default_s 10 0 [5, 5] empty_column))"
    using t1 c(1) by blast
  also have "\<dots> = Inr (ex_str\<lparr>query_count := 2, hit_count := 2\<rparr>,
            \<lparr>chars = ''five'' @ [CHR 0x00] @ ''five'' @ [CHR 0x00], offsets = [5, 10]\<rparr>)"
    by (simp add: ev_defs string_lookup_defs)
  finally have b: "getItemsString ex_cfg 0 [5, 5] empty_column ex_default_s 10 100 (ex_worker []) 100 ex_str =
       Inr (ex_str\<lparr>query_count := 2, hit_count := 2\<rparr>,
            \<lparr>chars = ''five'' @ [CHR 0x00] @ ''five'' @ [CHR 0x00], offsets = [5, 10]\<rparr>)" .
  have d: "getItemsString ex_cfg 0 [5, 4] \<lparr>chars = ''old'' @ [CHR 0x00], offsets = [4]\<rparr> ex_default_s 10 100
         (ex_worker []) 100 ex_str =
       getItemsString_pessimistic ex_cfg 0 [5, 4] empty_column ex_default_s 100 (ex_worker []) 100 ex_str"
    using t2 c(2) by blast
  show ?thesis using a b d by blast
qed

section \<open>A fetch that found nothing\<close>

text \<open>
  C7, as the code has it. The block of \<^verbatim>\<open>prepareAnswer\<close> that kept expired data under the
  backoff end time is commented out. When no requested key is marked found, as after a
  failed fetch, \<^verbatim>\<open>prepareAnswer\<close> raises no exception and treats every requested key alike,
  whether or not its cell still held an expired value: the cell of the key's slot holds a
  requested key and is marked default, every attribute payload of the slot is the null
  value, the
  expiry comes from the lifetime bounds (the max sentinel, or \<open>now\<close> plus a draw), and the
  rows of the key in the numeric lookup receive their own defaults.
\<close>

theorem failed_fetch_defaults_requested_keys:
  assumes "\<forall>k' \<in> set (requested_ids u). found_ids_mask u k' = Some False"
    and "attrs_ok st" and "k \<in> set (requested_ids u)"
  shows "\<exists>st' acc'.
     prepareAnswer cfg u (number_on_cell_updated a static_cast) (number_on_id_not_found get_default)
       now st acc = Inr (st', acc') \<and>
     is_default (cells st' ! getCellIdx cfg st k) \<and>
     cell_id (cells st' ! getCellIdx cfg st k) \<in> set (requested_ids u) \<and>
     (\<forall>x \<in> set (attributes st'). arrays x ! getCellIdx cfg st k = null_value x) \<and>
     (expires_at (cells st' ! getCellIdx cfg st k) = time_point_max \<or>
      (\<exists>raw. expires_at (cells st' ! getCellIdx cfg st k) =
         now + int (uniform_int_distribution (min_sec cfg) (max_sec cfg) raw))) \<and>
     (\<forall>r \<in> set (group_rows (cache_not_found_ids acc) k) \<union> set (group_rows (cache_expired_ids acc) k).
        r < length (out acc) \<longrightarrow> out acc' ! r = get_default r)"
proof -
  let ?s = "st\<lparr>rw_lock := ReadLocked\<rparr>"
  let ?f = "number_on_cell_updated a static_cast"
  let ?g = "number_on_id_not_found get_default"
  have t: "\<forall>k' \<in> set (requested_ids u). found_ids_mask u k' \<noteq> None"
    using assms(1) by simp
  from loop_total [OF t, of cfg ?f ?g now "(?s, acc)"] obtain st1 acc' where
    l: "prepareAnswer_loop cfg u ?f ?g now (requested_ids u) (?s, acc) = Inr (st1, acc')"
    by auto
  have g: "\<And>x. getCellIdx cfg ?s x = getCellIdx cfg st x" by (simp add: getCellIdx_def)
  have ok: "attrs_ok ?s" using assms(2) by (simp add: attrs_ok_def)
  have ne: "cells ?s \<noteq> []" using assms(2) by (simp add: attrs_ok_def)
  from loop_all_false_defaulted [OF l assms(1) ok assms(3)] obtain k' where
    k': "k' \<in> set (requested_ids u)" and d: "slot_defaulted cfg now st1 (getCellIdx cfg st k) k'"
    by (auto simp: g)
  from d obtain eng where
    e: "expires_at (cells st1 ! getCellIdx cfg st k) = ttl_expiry cfg now eng"
    by (auto simp: slot_defaulted_def)
  have x: "expires_at (cells st1 ! getCellIdx cfg st k) = time_point_max \<or>
      (\<exists>raw. expires_at (cells st1 ! getCellIdx cfg st k) =
         now + int (uniform_int_distribution (min_sec cfg) (max_sec cfg) raw))"
    unfolding e by (rule ttl_expiry_cases)
  have o: "\<forall>r \<in> set (group_rows (cache_not_found_ids acc) k) \<union> set (group_rows (cache_expired_ids acc) k).
        r < length (out acc) \<longrightarrow> out acc' ! r = get_default r"
    using loop_all_false_out [OF l assms(1) ne] assms(3) by auto
  have r: "prepareAnswer cfg u ?f ?g now st acc = Inr (st1\<lparr>rw_lock := Unlocked\<rparr>, acc')"
    using l by (simp add: prepareAnswer_def)
  show ?thesis
    using d k' x o unfolding r slot_defaulted_def
    by (intro exI [of _ "st1\<lparr>rw_lock := Unlocked\<rparr>"] exI [of _ acc']) simp
qed

text \<open>
  The theorem at the example: at time 100 key 5 is expired but known in slot 1; after the
  unit of the keys 7 and 5 with nothing found, the slot is default with null payloads and
  row 1 holds its default.
\<close>

theorem failed_fetch_defaults_requested_keys_witness:
  "is_expired ex_cfg ex_num 100 5 \<and>
   (\<exists>st' acc'.
     prepareAnswer ex_cfg (ex_unit [7, 5] []) (number_on_cell_updated 0 id) (number_on_id_not_found ex_default)
       100 ex_num ex_locals = Inr (st', acc') \<and>
     is_default (cells st' ! getCellIdx ex_cfg ex_num 5) \<and>
     (\<forall>x \<in> set (attributes st'). arrays x ! getCellIdx ex_cfg ex_num 5 = null_value x) \<and>
     out acc' ! 1 = ex_default 1)"
proof -
  have "is_expired ex_cfg ex_num 100 5"
    by (simp add: is_expired_def findCellIdx_def getCellIdx_def ex_defs)
  moreover have "attrs_ok ex_num" by (simp add: attrs_ok_def ex_defs)
  moreover have "\<forall>k' \<in> set (requested_ids (ex_unit [7, 5] [])).
      found_ids_mask (ex_unit [7, 5] []) k' = Some False"
    by (simp add: ex_unit_def)
  moreover have "5 \<in> set (requested_ids (ex_unit [7, 5] []))" by (simp add: ex_unit_def)
  moreover have "group_rows (cache_expired_ids ex_locals) 5 = [1]" "length (out ex_locals) = 3"
    by (simp_all add: ex_locals_def group_rows_def)
  ultimately show ?thesis
    using failed_fetch_defaults_requested_keys [of "ex_unit [7, 5] []" ex_num 5 ex_cfg 0 id
        ex_default 100 ex_locals]
    by auto
qed

text \<open>
  C7 as the spec words it fails: key 5 is expired but known with payload 55, the backoff end
  time is 130, and nothing is found. The cell is marked default, the payload 55 is replaced
  by the null value 0, the expiry is 113 (from the lifetime 10 to 20), and row 1 gets its
  default 1001.
\<close>

theorem failed_fetch_drops_stale_value:
  "is_expired ex_cfg ex_num 100 5 \<and> arrays (attributes ex_num ! 0) ! 1 = 55
   \<and> backoff_end_time ex_num = 130
   \<and> prepareAnswer ex_cfg (ex_unit [5] []) (number_on_cell_updated 0 id)
       (number_on_id_not_found ex_default) 100 ex_num ex_locals =
     Inr (ex_num\<lparr>cells := [\<lparr>cell_id = 0, expires_at = 0, is_default = False\<rparr>,
                            \<lparr>cell_id = 5, expires_at = 113, is_default = True\<rparr>],
                 attributes := [\<lparr>null_value = 0, arrays = [40, 0]\<rparr>, \<lparr>null_value = 9, arrays = [1, 9]\<rparr>],
                 rnd_engine := 4,
                 cell_writes := [(1, ReadLocked), (1, ReadLocked), (1, ReadLocked)]\<rparr>,
          ex_locals\<lparr>out := [0, 1001, 0]\<rparr>)"
  by (simp add: ev_defs is_expired_def)

section \<open>The lock held while cells are written\<close>

text \<open>
  C8 asks for the write lock around every mutation of a cell. \<^verbatim>\<open>prepareAnswer\<close> takes a
  \<^verbatim>\<open>ProfilingScopedReadRWLock\<close>: for the unit of key 7, not found, the id, the expiry and
  the default flag of cell 1 are written, and the history shows the read lock at each of
  the three writes.
\<close>

theorem prepareAnswer_mutates_under_read_lock:
  "rw_lock ex_num = Unlocked \<and> cell_writes ex_num = []
   \<and> prepareAnswer ex_cfg (ex_unit [7] []) (number_on_cell_updated 0 id)
       (number_on_id_not_found ex_default) 100 ex_num ex_locals =
     Inr (ex_num\<lparr>cells := [\<lparr>cell_id = 0, expires_at = 0, is_default = False\<rparr>,
                            \<lparr>cell_id = 7, expires_at = 113, is_default = True\<rparr>],
                 attributes := [\<lparr>null_value = 0, arrays = [40, 0]\<rparr>, \<lparr>null_value = 9, arrays = [1, 9]\<rparr>],
                 rnd_engine := 4,
                 cell_writes := [(1, ReadLocked), (1, ReadLocked), (1, ReadLocked)]\<rparr>,
          ex_locals\<lparr>out := [1000, 0, 1002]\<rparr>)"
  by (simp add: ev_defs)

section \<open>The element counter\<close>

text \<open>
  C9. In the loop body of \<^verbatim>\<open>prepareAnswer\<close>, \<open>element_count\<close> is incremented (by one,
  wrapping as \<^verbatim>\<open>size_t\<close>) exactly when the key's found mask is false and its cell is a
  never-occupied slot: stored id 0 and index other than the zero slot's. It is unchanged
  when the key overwrites an occupied slot and when the key was found. Over the whole of
  \<^verbatim>\<open>prepareAnswer\<close>, with the zero slot being the slot of key 0 as the class initialises
  it, the counter grows by the number of never-occupied slots that a requested key with a
  false found mask maps to: once per slot, however many keys land on it.
\<close>

theorem element_count_counts_first_occupancy:
  "(found_ids_mask u k = Some b \<longrightarrow>
      (\<exists>st' c'. prepareAnswer_body cfg u f g now k (st0, c0) = Inr (st', c') \<and>
         element_count st' =
           (if \<not> b \<and> cell_id (cells st0 ! getCellIdx cfg st0 k) = 0
               \<and> getCellIdx cfg st0 k \<noteq> zero_cell_idx cfg
            then element_count st0 + 1 else element_count st0)))
   \<and> ((\<forall>k' \<in> set (requested_ids u). found_ids_mask u k' \<noteq> None)
        \<and> zero_cell_idx cfg = getCellIdx cfg st 0 \<and> cells st \<noteq> [] \<longrightarrow>
      (\<exists>st' c'. prepareAnswer cfg u f g now st c = Inr (st', c') \<and>
         element_count st' = element_count st + of_nat (card
           {i. i \<noteq> zero_cell_idx cfg \<and> cell_id (cells st ! i) = 0
               \<and> (\<exists>k' \<in> set (requested_ids u).
                      found_ids_mask u k' = Some False \<and> getCellIdx cfg st k' = i)})))"
proof (intro conjI impI)
  assume "found_ids_mask u k = Some b"
  then show "\<exists>st' c'. prepareAnswer_body cfg u f g now k (st0, c0) = Inr (st', c') \<and>
         element_count st' =
           (if \<not> b \<and> cell_id (cells st0 ! getCellIdx cfg st0 k) = 0
               \<and> getCellIdx cfg st0 k \<noteq> zero_cell_idx cfg
            then element_count st0 + 1 else element_count st0)"
    by (rule body_element_count)
next
  assume a: "(\<forall>k' \<in> set (requested_ids u). found_ids_mask u k' \<noteq> None)
        \<and> zero_cell_idx cfg = getCellIdx cfg st 0 \<and> cells st \<noteq> []"
  let ?s = "st\<lparr>rw_lock := ReadLocked\<rparr>"
  from a have t: "\<forall>k' \<in> set (requested_ids u). found_ids_mask u k' \<noteq> None" by simp
  from loop_total [OF t, of cfg f g now "(?s, c)"] obtain st1 c' where
    l: "prepareAnswer_loop cfg u f g now (requested_ids u) (?s, c) = Inr (st1, c')"
    by auto
  have z: "zero_cell_idx cfg = getCellIdx cfg ?s 0" using a by (simp add: getCellIdx_def)
  have ne: "cells ?s \<noteq> []" using a by simp
  have "element_count st1 = element_count ?s + of_nat (card (fresh_slots cfg u ?s (requested_ids u)))"
    by (rule loop_element_count [OF l z ne])
  moreover have "fresh_slots cfg u ?s (requested_ids u) =
     {i. i \<noteq> zero_cell_idx cfg \<and> cell_id (cells st ! i) = 0
               \<and> (\<exists>k' \<in> set (requested_ids u).
                      found_ids_mask u k' = Some False \<and> getCellIdx cfg st k' = i)}"
    by (simp add: fresh_slots_def getCellIdx_def)
  moreover have "prepareAnswer cfg u f g now st c = Inr (st1\<lparr>rw_lock := Unlocked\<rparr>, c')"
    using l by (simp add: prepareAnswer_def)
  ultimately show "\<exists>st' c'. prepareAnswer cfg u f g now st c = Inr (st', c') \<and>
         element_count st' = element_count st + of_nat (card
           {i. i \<noteq> zero_cell_idx cfg \<and> cell_id (cells st ! i) = 0
               \<and> (\<exists>k' \<in> set (requested_ids u).
                      found_ids_mask u k' = Some False \<and> getCellIdx cfg st k' = i)})"
    by simp
qed

text \<open>
  The theorem at the examples: key 7 lands on slot 1. On the empty table the slot was never
  occupied and the counter goes from 0 to 1; on the table where slot 1 holds key 5 the
  counter stays 1. For the unit of the keys 7 and 5, both on slot 1 of the empty table, the
  counter grows by one only.
\<close>

theorem element_count_counts_first_occupancy_witness:
  "(\<exists>st' c'. prepareAnswer_body ex_cfg (ex_unit [7, 5] []) (number_on_cell_updated 0 id)
        (number_on_id_not_found ex_default) 100 7 (ex_empty, ex_locals) = Inr (st', c')
      \<and> element_count st' = 1)
   \<and> (\<exists>st' c'. prepareAnswer_body ex_cfg (ex_unit [7, 5] []) (number_on_cell_updated 0 id)
        (number_on_id_not_found ex_default) 100 7 (ex_num, ex_locals) = Inr (st', c')
      \<and> element_count st' = 1)
   \<and> (\<exists>st' c'. prepareAnswer ex_cfg (ex_unit [7, 5] []) (number_on_cell_updated 0 id)
        (number_on_id_not_found ex_default) 100 ex_empty ex_locals = Inr (st', c')
      \<and> element_count st' = 1)"
proof -
  have s: "{i. i \<noteq> zero_cell_idx ex_cfg \<and> cell_id (cells ex_empty ! i) = 0
               \<and> (\<exists>k' \<in> set (requested_ids (ex_unit [7, 5] [])).
                      found_ids_mask (ex_unit [7, 5] []) k' = Some False
                      \<and> getCellIdx ex_cfg ex_empty k' = i)} = {1}"
    by (auto simp: ex_empty_def ex_defs getCellIdx_def)
  have m: "found_ids_mask (ex_unit [7, 5] []) 7 = Some False"
    "\<forall>k' \<in> set (requested_ids (ex_unit [7, 5] [])). found_ids_mask (ex_unit [7, 5] []) k' \<noteq> None"
    by (auto simp add: ex_unit_def)
  have z: "zero_cell_idx ex_cfg = getCellIdx ex_cfg ex_empty 0" "cells ex_empty \<noteq> []"
    by (simp_all add: ex_empty_def ex_defs getCellIdx_def)
  have c: "cell_id (cells ex_empty ! getCellIdx ex_cfg ex_empty 7) = 0"
    "getCellIdx ex_cfg ex_empty 7 \<noteq> zero_cell_idx ex_cfg"
    "cell_id (cells ex_num ! getCellIdx ex_cfg ex_num 7) \<noteq> 0"
    "element_count ex_empty = 0" "element_count ex_num = 1"
    by (simp_all add: ex_empty_def ex_defs getCellIdx_def)
  show ?thesis
    using element_count_counts_first_occupancy [of "ex_unit [7, 5] []" 7 False ex_cfg
        "number_on_cell_updated 0 id" "number_on_id_not_found ex_default" 100 ex_empty ex_locals
        ex_empty ex_locals]
      element_count_counts_first_occupancy [of "ex_unit [7, 5] []" 7 False ex_cfg
        "number_on_cell_updated 0 id" "number_on_id_not_found ex_default" 100 ex_num ex_locals
        ex_empty ex_locals]
    unfolding s using m z c by simp
qed

section \<open>A key that was not found takes over its slot\<close>

text \<open>
  C10. For a requested key \<open>k\<close> whose found mask is false, \<^verbatim>\<open>prepareAnswer\<close> takes over
  the key's slot whatever the cell held before (no hypothesis restricts the old cell, so
  also a fresh valid entry of another key): the cell's id becomes \<open>k\<close>, the cell is marked
  default, its expiry is assigned anew (the max sentinel or \<open>now\<close> plus a draw), and the
  payload of every attribute of the dictionary at that slot is its null value. This is the
  state after the whole loop when no later requested key with a false mask maps to the same
  slot (such a key would take the slot over in turn).
\<close>

theorem not_found_key_takes_over_slot:
  assumes "requested_ids u = pre @ k # post"
    and "\<forall>k' \<in> set (requested_ids u). found_ids_mask u k' \<noteq> None"
    and "found_ids_mask u k = Some False"
    and "\<forall>k' \<in> set post. found_ids_mask u k' = Some False \<longrightarrow>
           getCellIdx cfg st k' \<noteq> getCellIdx cfg st k"
    and "attrs_ok st"
  shows "\<exists>st' c'. prepareAnswer cfg u f g now st c = Inr (st', c') \<and>
     cell_id (cells st' ! getCellIdx cfg st k) = k \<and>
     is_default (cells st' ! getCellIdx cfg st k) \<and>
     (expires_at (cells st' ! getCellIdx cfg st k) = time_point_max \<or>
      (\<exists>raw. expires_at (cells st' ! getCellIdx cfg st k) =
         now + int (uniform_int_distribution (min_sec cfg) (max_sec cfg) raw))) \<and>
     length (attributes st') = length (attributes st) \<and>
     (\<forall>a \<in> set (attributes st'). arrays a ! getCellIdx cfg st k = null_value a)"
proof -
  let ?s = "st\<lparr>rw_lock := ReadLocked\<rparr>"
  from loop_total [OF assms(2), of cfg f g now "(?s, c)"] obtain st1 c' where
    l: "prepareAnswer_loop cfg u f g now (requested_ids u) (?s, c) = Inr (st1, c')"
    by auto
  have g: "\<And>x. getCellIdx cfg ?s x = getCellIdx cfg st x" by (simp add: getCellIdx_def)
  have ok: "attrs_ok ?s" using assms(5) by (simp add: attrs_ok_def)
  have l': "prepareAnswer_loop cfg u f g now (pre @ k # post) (?s, c) = Inr (st1, c')"
    using l by (simp add: assms(1))
  have p: "\<forall>k' \<in> set post. found_ids_mask u k' = Some False \<longrightarrow>
           getCellIdx cfg ?s k' \<noteq> getCellIdx cfg ?s k"
    using assms(4) by (simp add: g)
  have d: "slot_defaulted cfg now st1 (getCellIdx cfg st k) k"
    using loop_takes [OF l' assms(3) p ok] by (simp add: g)
  have n: "length (attributes st1) = length (attributes st)"
    using loop_null_values [OF l, THEN arg_cong, of length] by simp
  have r: "prepareAnswer cfg u f g now st c = Inr (st1\<lparr>rw_lock := Unlocked\<rparr>, c')"
    using l by (simp add: prepareAnswer_def)
  from d obtain eng where
    e: "expires_at (cells st1 ! getCellIdx cfg st k) = ttl_expiry cfg now eng"
    by (auto simp: slot_defaulted_def)
  have x: "expires_at (cells st1 ! getCellIdx cfg st k) = time_point_max \<or>
      (\<exists>raw. expires_at (cells st1 ! getCellIdx cfg st k) =
         now + int (uniform_int_distribution (min_sec cfg) (max_sec cfg) raw))"
    unfolding e by (rule ttl_expiry_cases)
  show ?thesis
    using d n x unfolding r slot_defaulted_def
    by (intro exI [of _ "st1\<lparr>rw_lock := Unlocked\<rparr>"] exI [of _ c']) simp
qed

text \<open>
  The theorem at the example: at time 10 key 5 is a valid hit in slot 1; the unit of key 7,
  not found, evicts it.
\<close>

theorem not_found_key_takes_over_slot_witness:
  "is_hit ex_cfg ex_num 10 5 \<and>
   (\<exists>st' c'. prepareAnswer ex_cfg (ex_unit [7] []) (number_on_cell_updated 0 id)
        (number_on_id_not_found ex_default) 10 ex_num ex_locals = Inr (st', c') \<and>
     cell_id (cells st' ! getCellIdx ex_cfg ex_num 7) = 7 \<and>
     is_default (cells st' ! getCellIdx ex_cfg ex_num 7) \<and>
     length (attributes st') = 2 \<and>
     (\<forall>a \<in> set (attributes st'). arrays a ! getCellIdx ex_cfg ex_num 7 = null_value a))"
proof -
  have "is_hit ex_cfg ex_num 10 5"
    by (simp add: is_hit_def findCellIdx_def getCellIdx_def ex_defs)
  moreover have "attrs_ok ex_num" by (simp add: attrs_ok_def ex_defs)
  ultimately show ?thesis
    using not_found_key_takes_over_slot [of "ex_unit [7] []" "[]" 7 "[]" ex_cfg ex_num
        "number_on_cell_updated 0 id" "number_on_id_not_found ex_default" 10 ex_locals]
    by (simp add: ex_unit_def) (auto simp: ex_defs)
qed

end
